theory Spec2Isabelle
  imports Main
begin

section \<open>Dependency nodes and watchers (core/observer/dep.js, core/observer/watcher.js)\<close>

text \<open>
  Objects are referred to by their unique ids: a Dep by the \<open>id\<close> its constructor takes
  from \<open>uid++\<close>, a Watcher by the \<open>id\<close> it takes from \<open>++uid\<close>. A slot of flow type
  \<open>?Watcher\<close> holds \<open>null\<close>, \<open>undefined\<close> or a watcher.
\<close>

datatype jsref = Null | Undefined | Ref nat

datatype jsval = VUndefined | VPrim int | VObject nat

datatype exn = TypeError | Thrown nat

text \<open>
  What \<open>depIds\<close> and \<open>newDepIds\<close> can hold: a \<open>SimpleSet\<close> (the \<open>Set\<close> class that
  watcher.js imports as \<open>_Set as Set\<close>; its ids in insertion order), or an object that is
  not a set and has neither \<open>has\<close> nor \<open>add\<close>. Calling a method that an object lacks
  raises a TypeError.
\<close>

datatype idset = SimpleSet "nat list" | PlainObject

fun set_has :: "idset \<Rightarrow> nat \<Rightarrow> exn + bool" where
  "set_has (SimpleSet xs) i = Inr (i \<in> set xs)"
| "set_has PlainObject i = Inl TypeError"

fun set_add :: "idset \<Rightarrow> nat \<Rightarrow> exn + idset" where
  "set_add (SimpleSet xs) i = Inr (SimpleSet (if i \<in> set xs then xs else xs @ [i]))"
| "set_add PlainObject i = Inl TypeError"

datatype getter = Noop | Fn | PathGetter string

datatype warning = FailedWatchingPath string

record watcher =
  w_vm :: nat
  w_deep :: bool
  w_user :: bool
  w_lazy :: bool
  w_sync :: bool
  w_active :: bool
  w_dirty :: bool
  w_deps :: "nat list"
  w_newDeps :: "nat list"
  w_depIds :: idset
  w_newDepIds :: idset
  w_getter :: getter
  w_value :: jsval

record vm =
  vm_watcher :: jsref
  vm_watchers :: "nat list"
  vm_isBeingDestroyed :: bool

text \<open>
  The heap and the module-level variables: \<open>subs\<close> of every Dep, every Watcher, every
  component instance, \<open>Dep.target\<close>, \<open>targetStack\<close>, the watcher \<open>uid\<close> counter, and
  what \<open>warn\<close> and \<open>handleError\<close> were called with.
\<close>

record world =
  subs :: "nat \<Rightarrow> nat list"
  watchers :: "nat \<Rightarrow> watcher"
  vms :: "nat \<Rightarrow> vm"
  target :: jsref
  targetStack :: "jsref list"
  uid :: nat
  warnings :: "warning list"
  handled :: "exn list"

text \<open>
  Modelled from the spec: \<open>remove\<close> of core/util (not under src), "removeSub(w) removes
  by identity": the first occurrence of the item is spliced out of the array.
\<close>

definition remove_item :: "nat list \<Rightarrow> nat \<Rightarrow> nat list" where
  "remove_item arr item = remove1 item arr"

subsection \<open>Dep\<close>

definition addSub :: "nat \<Rightarrow> nat \<Rightarrow> world \<Rightarrow> world" where
  "addSub d w s = s\<lparr>subs := (subs s)(d := subs s d @ [w])\<rparr>"

definition removeSub :: "nat \<Rightarrow> nat \<Rightarrow> world \<Rightarrow> world" where
  "removeSub d w s = s\<lparr>subs := (subs s)(d := remove_item (subs s d) w)\<rparr>"

text \<open>
  \<open>targetStack.push(target); Dep.target = target\<close> and
  \<open>targetStack.pop(); Dep.target = targetStack[targetStack.length - 1]\<close>. Reading index
  \<open>-1\<close> of the empty array gives \<open>undefined\<close>; \<open>pop\<close> on the empty array does nothing.
\<close>

definition stack_top :: "jsref list \<Rightarrow> jsref" where
  "stack_top st = (if st = [] then Undefined else last st)"

definition pushTarget :: "jsref \<Rightarrow> world \<Rightarrow> world" where
  "pushTarget t s = s\<lparr>targetStack := targetStack s @ [t], target := t\<rparr>"

definition popTarget :: "world \<Rightarrow> world" where
  "popTarget s =
     (let st = butlast (targetStack s) in s\<lparr>targetStack := st, target := stack_top st\<rparr>)"

text \<open>The module's state when dep.js has been loaded: \<open>Dep.target = null\<close>, an empty stack.\<close>

definition dep_module_init :: "world \<Rightarrow> world" where
  "dep_module_init s = s\<lparr>target := Null, targetStack := []\<rparr>"

text \<open>
  \<open>notify\<close>: the snapshot \<open>subs.slice()\<close>, sorted by watcher id when
  \<open>process.env.NODE_ENV !== 'production' && !config.async\<close>, then \<open>update()\<close> on each entry.
  \<open>update\<close> is any state transformer: it may change every subscriber list. The first
  component of the result lists the watchers whose \<open>update\<close> was invoked, in order.
\<close>

definition notify_snapshot :: "bool \<Rightarrow> bool \<Rightarrow> nat list \<Rightarrow> nat list" where
  "notify_snapshot production config_async sl =
     (if \<not> production \<and> \<not> config_async then sort sl else sl)"

fun notify_loop :: "(nat \<Rightarrow> world \<Rightarrow> world) \<Rightarrow> nat list \<Rightarrow> nat \<Rightarrow> nat \<Rightarrow>
    nat list \<times> world \<Rightarrow> nat list \<times> world" where
  "notify_loop update sl i 0 (called, s) = (called, s)"
| "notify_loop update sl i (Suc k) (called, s) =
     notify_loop update sl (Suc i) k (called @ [sl ! i], update (sl ! i) s)"

definition notify :: "bool \<Rightarrow> bool \<Rightarrow> (nat \<Rightarrow> world \<Rightarrow> world) \<Rightarrow> nat \<Rightarrow> world \<Rightarrow>
    nat list \<times> world" where
  "notify production config_async update d s =
     (let sl = notify_snapshot production config_async (subs s d)
      in notify_loop update sl 0 (length sl) ([], s))"

subsection \<open>Watcher\<close>

definition addDep :: "nat \<Rightarrow> nat \<Rightarrow> world \<Rightarrow> exn option \<times> world" where
  "addDep w d s =
     (let W = watchers s w in
      case set_has (w_newDepIds W) d of
        Inl e \<Rightarrow> (Some e, s)
      | Inr True \<Rightarrow> (None, s)
      | Inr False \<Rightarrow>
          (case set_add (w_newDepIds W) d of
             Inl e \<Rightarrow> (Some e, s)
           | Inr ids \<Rightarrow>
               (let s1 = s\<lparr>watchers := (watchers s)
                            (w := W\<lparr>w_newDepIds := ids, w_newDeps := w_newDeps W @ [d]\<rparr>)\<rparr>
                in case set_has (w_depIds W) d of
                     Inl e \<Rightarrow> (Some e, s1)
                   | Inr True \<Rightarrow> (None, s1)
                   | Inr False \<Rightarrow> (None, addSub d w s1))))"

definition depend :: "nat \<Rightarrow> world \<Rightarrow> exn option \<times> world" where
  "depend d s = (case target s of Ref w \<Rightarrow> addDep w d s | _ \<Rightarrow> (None, s))"

text \<open>
  The loop of \<open>cleanupDeps\<close>: \<open>let i = this.deps.length; while (i--) { ... this.deps[i] ... }\<close>.
  With counter \<open>Suc i\<close> the body runs at index \<open>i\<close>.
\<close>

fun cleanup_loop :: "nat \<Rightarrow> nat list \<Rightarrow> idset \<Rightarrow> nat \<Rightarrow> world \<Rightarrow> exn option \<times> world" where
  "cleanup_loop 0 ds ids w s = (None, s)"
| "cleanup_loop (Suc i) ds ids w s =
     (case set_has ids (ds ! i) of
        Inl e \<Rightarrow> (Some e, s)
      | Inr True \<Rightarrow> cleanup_loop i ds ids w s
      | Inr False \<Rightarrow> cleanup_loop i ds ids w (removeSub (ds ! i) w s))"

text \<open>
  \<open>cleanupDeps\<close> ends with \<open>this.newDepIds = new set([])\<close>, where \<open>set\<close> is what watcher.js
  imports by \<open>import { set } from '.'\<close>, the index module of core/observer (not under src).
  The object this expression yields is the parameter \<open>new_set\<close>.
\<close>

definition cleanupDeps :: "idset \<Rightarrow> nat \<Rightarrow> world \<Rightarrow> exn option \<times> world" where
  "cleanupDeps new_set w s =
     (let W = watchers s w in
      case cleanup_loop (length (w_deps W)) (w_deps W) (w_newDepIds W) w s of
        (Some e, s1) \<Rightarrow> (Some e, s1)
      | (None, s1) \<Rightarrow>
          (None, s1\<lparr>watchers := (watchers s1)
                   (w := (watchers s1 w)\<lparr>w_depIds := w_newDepIds W, w_newDepIds := new_set,
                                          w_deps := w_newDeps W, w_newDeps := []\<rparr>)\<rparr>))"

text \<open>
  One call of the evaluator (user code): the Deps whose \<open>depend()\<close> its property reads
  call, in order, then a returned value or a thrown error; and the Deps that
  \<open>traverse\<close> reads when it walks the returned object.
\<close>

record evaluation =
  ev_touches :: "nat list"
  ev_outcome :: "exn + jsval"
  ev_deep_touches :: "nat list"

fun touch_all :: "nat list \<Rightarrow> world \<Rightarrow> exn option \<times> world" where
  "touch_all [] s = (None, s)"
| "touch_all (d # ds) s =
     (case depend d s of (Some e, s1) \<Rightarrow> (Some e, s1) | (None, s1) \<Rightarrow> touch_all ds s1)"

definition call_getter :: "getter \<Rightarrow> evaluation \<Rightarrow> world \<Rightarrow> (exn + jsval) \<times> world" where
  "call_getter g ev s =
     (case g of
        Noop \<Rightarrow> (Inr VUndefined, s)
      | _ \<Rightarrow> (case touch_all (ev_touches ev) s of
                (Some e, s1) \<Rightarrow> (Inl e, s1)
              | (None, s1) \<Rightarrow> (ev_outcome ev, s1)))"

text \<open>
  Modelled from the spec: \<open>traverse\<close> of core/observer/traverse (not under src),
  "recursively touch every reachable property of the result": a value that is not an
  object has no property to touch.
\<close>

definition traverse :: "jsval \<Rightarrow> evaluation \<Rightarrow> world \<Rightarrow> exn option \<times> world" where
  "traverse v ev s = (case v of VObject _ \<Rightarrow> touch_all (ev_deep_touches ev) s | _ \<Rightarrow> (None, s))"

definition handleError :: "exn \<Rightarrow> world \<Rightarrow> world" where
  "handleError e s = s\<lparr>handled := handled s @ [e]\<rparr>"

text \<open>The \<open>finally\<close> block of \<open>get\<close>: an error in one statement skips the statements after it.\<close>

definition get_finally :: "idset \<Rightarrow> nat \<Rightarrow> jsval \<Rightarrow> evaluation \<Rightarrow> world \<Rightarrow> exn option \<times> world" where
  "get_finally new_set w v ev s =
     (case (if w_deep (watchers s w) then traverse v ev s else (None, s)) of
        (Some e, s1) \<Rightarrow> (Some e, s1)
      | (None, s1) \<Rightarrow> cleanupDeps new_set w (popTarget s1))"

text \<open>
  \<open>get\<close>: the error of the \<open>try\<close> block is rethrown unless the watcher is a user watcher;
  an error thrown inside \<open>finally\<close> replaces it.
\<close>

definition get :: "idset \<Rightarrow> nat \<Rightarrow> evaluation \<Rightarrow> world \<Rightarrow> (exn + jsval) \<times> world" where
  "get new_set w ev s0 =
     (let s1 = pushTarget (Ref w) s0;
          W = watchers s1 w;
          (r, s2) = call_getter (w_getter W) ev s1;
          (pending, v, s3) =
            (case r of
               Inr v \<Rightarrow> (None, v, s2)
             | Inl e \<Rightarrow> if w_user W then (None, VUndefined, handleError e s2)
                        else (Some e, VUndefined, s2));
          (fin, s4) = get_finally new_set w v ev s3
      in case fin of
           Some e \<Rightarrow> (Inl e, s4)
         | None \<Rightarrow> (case pending of Some e \<Rightarrow> (Inl e, s4) | None \<Rightarrow> (Inr v, s4)))"

text \<open>The loop of \<open>teardown\<close>: \<open>let i = this.deps.length; while (i--) this.deps[i].removeSub(this)\<close>.\<close>

fun teardown_loop :: "nat \<Rightarrow> nat list \<Rightarrow> nat \<Rightarrow> world \<Rightarrow> world" where
  "teardown_loop 0 ds w s = s"
| "teardown_loop (Suc i) ds w s = teardown_loop i ds w (removeSub (ds ! i) w s)"

definition teardown :: "nat \<Rightarrow> world \<Rightarrow> world" where
  "teardown w s =
     (let W = watchers s w in
      if w_active W then
        (let v = w_vm W;
             s1 = (if \<not> vm_isBeingDestroyed (vms s v)
                   then s\<lparr>vms := (vms s)(v := (vms s v)\<lparr>vm_watchers :=
                                     remove_item (vm_watchers (vms s v)) w\<rparr>)\<rparr>
                   else s);
             s2 = teardown_loop (length (w_deps W)) (w_deps W) w s1
         in s2\<lparr>watchers := (watchers s2)(w := (watchers s2 w)\<lparr>w_active := False\<rparr>)\<rparr>)
      else s)"

text \<open>
  The constructor. \<open>parsePath\<close> of core/util (not under src) is a parameter: whether it
  returns a getter function for the string. \<open>production\<close> is
  \<open>process.env.NODE_ENV === 'production'\<close>. The fields \<open>cb\<close>, \<open>before\<close> and \<open>expression\<close>
  are stored and not read by the functions modelled here.
\<close>

datatype expOrFn = FnArg | StrArg string

record options =
  o_deep :: bool
  o_user :: bool
  o_lazy :: bool
  o_sync :: bool

definition new_Watcher :: "(string \<Rightarrow> bool) \<Rightarrow> bool \<Rightarrow> idset \<Rightarrow> nat \<Rightarrow> expOrFn \<Rightarrow>
    options option \<Rightarrow> bool \<Rightarrow> evaluation \<Rightarrow> world \<Rightarrow> (exn + nat) \<times> world" where
  "new_Watcher parsePath production new_set v e opts isRenderWatcher ev s =
     (let this = Suc (uid s);
          V1 = (if isRenderWatcher then (vms s v)\<lparr>vm_watcher := Ref this\<rparr> else vms s v);
          V2 = V1\<lparr>vm_watchers := vm_watchers V1 @ [this]\<rparr>;
          flag = (\<lambda>f. case opts of Some o' \<Rightarrow> f o' | None \<Rightarrow> False);
          parsed = (case e of FnArg \<Rightarrow> True | StrArg p \<Rightarrow> parsePath p);
          W = \<lparr>w_vm = v, w_deep = flag o_deep, w_user = flag o_user, w_lazy = flag o_lazy,
               w_sync = flag o_sync, w_active = True, w_dirty = flag o_lazy,
               w_deps = [], w_newDeps = [], w_depIds = SimpleSet [], w_newDepIds = SimpleSet [],
               w_getter = (case e of FnArg \<Rightarrow> Fn
                           | StrArg p \<Rightarrow> if parsePath p then PathGetter p else Noop),
               w_value = VUndefined\<rparr>;
          s1 = s\<lparr>vms := (vms s)(v := V2), uid := this, watchers := (watchers s)(this := W),
                 warnings := (case e of
                                StrArg p \<Rightarrow> if \<not> parsePath p \<and> \<not> production
                                            then warnings s @ [FailedWatchingPath p]
                                            else warnings s
                              | FnArg \<Rightarrow> warnings s)\<rparr>
      in if w_lazy W then (Inr this, s1)
         else (case get new_set this ev s1 of
                 (Inl x, s2) \<Rightarrow> (Inl x, s2)
               | (Inr r, s2) \<Rightarrow>
                   (Inr this, s2\<lparr>watchers := (watchers s2)(this := (watchers s2 this)\<lparr>w_value := r\<rparr>)\<rparr>)))"

subsection \<open>Concrete states\<close>

text \<open>
  A heap with no subscription and dep.js freshly loaded; an evaluator that reads the
  properties behind the given Deps and returns a value; and the heap after
  \<open>new Watcher(vm, fn, cb)\<close> whose evaluator reads the property behind Dep 0, where
  \<open>new set([])\<close> yields an object that is not a set.
\<close>

definition watcher0 :: watcher where
  "watcher0 = \<lparr>w_vm = 0, w_deep = False, w_user = False, w_lazy = False, w_sync = False,
     w_active = False, w_dirty = False, w_deps = [], w_newDeps = [], w_depIds = SimpleSet [],
     w_newDepIds = SimpleSet [], w_getter = Noop, w_value = VUndefined\<rparr>"

definition vm0 :: vm where
  "vm0 = \<lparr>vm_watcher = Undefined, vm_watchers = [], vm_isBeingDestroyed = False\<rparr>"

definition world0 :: world where
  "world0 = \<lparr>subs = (\<lambda>_. []), watchers = (\<lambda>_. watcher0), vms = (\<lambda>_. vm0), target = Null,
     targetStack = [], uid = 0, warnings = [], handled = []\<rparr>"

definition ev_read :: "nat list \<Rightarrow> jsval \<Rightarrow> evaluation" where
  "ev_read ds v = \<lparr>ev_touches = ds, ev_outcome = Inr v, ev_deep_touches = []\<rparr>"

definition world1 :: world where
  "world1 = snd (new_Watcher (\<lambda>_. True) False PlainObject 0 FnArg None False
                   (ev_read [0] (VPrim 1)) world0)"

section \<open>Component VNode hooks (core/vdom/create-component.js)\<close>

text \<open>
  Component instances are referred to by number; \<open>_isMounted\<close> of every instance is part
  of the state, so that \<open>context\<close> and \<open>componentInstance\<close> may be the same instance.
  The lifecycle functions are not under src; the state records their calls.
  Modelled from the spec: \<open>callHook\<close> of core/instance/lifecycle invokes the named
  lifecycle of the instance ("invoke the component's mounted lifecycle");
  \<open>queueActivatedComponent\<close> of core/observer/scheduler queues the instance "for
  deferred keep-alive activation", processed at the end of the patch;
  \<open>activateChildComponent\<close> of core/instance/lifecycle invokes the activated lifecycle
  of the instance and, recursively, of its child components.
\<close>

record comp_world =
  is_mounted :: "nat \<Rightarrow> bool"
  hook_calls :: "(nat \<times> string) list"
  activated_queue :: "nat list"
  activated_now :: "(nat \<times> bool) list"

record comp_vnode =
  cv_context :: nat
  cv_componentInstance :: nat
  cv_keepAlive :: bool

definition callHook :: "nat \<Rightarrow> string \<Rightarrow> comp_world \<Rightarrow> comp_world" where
  "callHook inst hook s = s\<lparr>hook_calls := hook_calls s @ [(inst, hook)]\<rparr>"

definition queueActivatedComponent :: "nat \<Rightarrow> comp_world \<Rightarrow> comp_world" where
  "queueActivatedComponent inst s = s\<lparr>activated_queue := activated_queue s @ [inst]\<rparr>"

definition activateChildComponent :: "nat \<Rightarrow> bool \<Rightarrow> comp_world \<Rightarrow> comp_world" where
  "activateChildComponent inst direct s = s\<lparr>activated_now := activated_now s @ [(inst, direct)]\<rparr>"

definition insert_hook :: "comp_vnode \<Rightarrow> comp_world \<Rightarrow> comp_world" where
  "insert_hook vnode s =
     (let ctx = cv_context vnode;
          componentInstance = cv_componentInstance vnode;
          s1 = (if \<not> is_mounted s componentInstance
                then callHook componentInstance ''mounted''
                       (s\<lparr>is_mounted := (is_mounted s)(componentInstance := True)\<rparr>)
                else s)
      in if cv_keepAlive vnode
         then (if is_mounted s1 ctx
               then queueActivatedComponent componentInstance s1
               else activateChildComponent componentInstance True s1)
         else s1)"

text \<open>No instance mounted, nothing called yet.\<close>

definition comp_world0 :: comp_world where
  "comp_world0 = \<lparr>is_mounted = (\<lambda>_. False), hook_calls = [], activated_queue = [],
     activated_now = []\<rparr>"

section \<open>transition-group render (platforms/web/runtime/components/transition-group.js)\<close>

text \<open>
  VNodes are objects in a store, referred to by number, so that one VNode may stand in
  several child lists. A key is \<open>undefined\<close>, \<open>null\<close>, a string or a number. The
  conversion of a number to a string is the language's (\<open>Number::toString\<close>), not this
  repository's: a number key is held as the string that \<open>String(key)\<close> gives for it, so
  that the keys \<open>7\<close>, \<open>0.5\<close>, \<open>1e21\<close> and \<open>NaN\<close> are \<open>KNum ''7''\<close>, \<open>KNum ''0.5''\<close>,
  \<open>KNum ''1e+21''\<close> and \<open>KNum ''NaN''\<close>.
\<close>

datatype vkey = KUndefined | KNull | KStr string | KNum string

text \<open>\<open>String(key)\<close>\<close>

definition key_string :: "vkey \<Rightarrow> string" where
  "key_string k = (case k of KUndefined \<Rightarrow> ''undefined'' | KNull \<Rightarrow> ''null''
     | KStr s \<Rightarrow> s | KNum s \<Rightarrow> s)"

text \<open>
  The property name of \<open>map[key]\<close>: a key that is not a string is converted to one, so
  that \<open>map[null]\<close> is the property \<open>null\<close>, \<open>map[undefined]\<close> the property \<open>undefined\<close>, and
  \<open>map[7]\<close> and \<open>map['7']\<close> are the same property.
\<close>

definition prop_name :: "vkey \<Rightarrow> string" where
  "prop_name k = key_string k"

definition starts_with :: "string \<Rightarrow> string \<Rightarrow> bool" where
  "starts_with p s = (take (length p) s = p)"

text \<open>A DOMRect, as its \<open>left\<close> and \<open>top\<close>.\<close>

type_synonym rect = "int \<times> int"

record vdata =
  d_transition :: "nat option"
  d_pos :: "rect option"

record comp_opts =
  co_ctor_name :: "string option"
  co_tag :: "string option"

record vnode =
  vn_tag :: "string option"
  vn_key :: vkey
  vn_data :: "vdata option"
  vn_elm :: "nat option"
  vn_componentOptions :: "comp_opts option"

record out_vnode =
  ov_tag :: string
  ov_children :: "nat list"

record tgroup =
  tg_tag :: "string option"
  tg_vnode_data_tag :: "string option"
  tg_slots_default :: "nat list option"
  tg_children :: "nat list option"
  tg_prevChildren :: "nat list option"
  tg_kept :: "out_vnode option"
  tg_removed :: "nat list option"
  tg_vnodes :: "nat \<Rightarrow> vnode"
  tg_warnings :: "string list"

text \<open>A string is truthy when it is defined and not empty.\<close>

definition truthy_str :: "string option \<Rightarrow> bool" where
  "truthy_str x = (case x of None \<Rightarrow> False | Some s \<Rightarrow> s \<noteq> [])"

text \<open>\<open>c.key != null && String(c.key).indexOf('__vlist') !== 0\<close>\<close>

definition key_ok :: "vnode \<Rightarrow> bool" where
  "key_ok c = (vn_key c \<noteq> KUndefined \<and> vn_key c \<noteq> KNull \<and>
               \<not> starts_with ''__vlist'' (key_string (vn_key c)))"

definition child_name :: "vnode \<Rightarrow> string" where
  "child_name c =
     (case vn_componentOptions c of
        Some opts \<Rightarrow> (if truthy_str (co_ctor_name opts) then the (co_ctor_name opts)
                      else if truthy_str (co_tag opts) then the (co_tag opts) else [])
      | None \<Rightarrow> (case vn_tag c of Some t \<Rightarrow> t | None \<Rightarrow> []))"

definition keyed_warning :: "vnode \<Rightarrow> string" where
  "keyed_warning c = ''<transition-group> children must be keyed: <'' @ child_name c @ ''>''"

text \<open>\<open>(c.data || (c.data = {})).transition = transitionData\<close>\<close>

definition set_transition :: "nat \<Rightarrow> vnode \<Rightarrow> vnode" where
  "set_transition td c =
     c\<lparr>vn_data := Some ((case vn_data c of None \<Rightarrow> \<lparr>d_transition = None, d_pos = None\<rparr>
                           | Some d \<Rightarrow> d)\<lparr>d_transition := Some td\<rparr>)\<rparr>"

text \<open>
  The body of the first loop, over \<open>rawChildren\<close>; its state is \<open>children\<close>, \<open>map\<close>,
  the VNode store and the warnings. \<open>td\<close> is what \<open>extractTransitionData(this)\<close>
  returned (transition.js is not under src).
\<close>

definition raw_step :: "bool \<Rightarrow> nat \<Rightarrow> nat \<Rightarrow>
    nat list \<times> (string \<rightharpoonup> nat) \<times> (nat \<Rightarrow> vnode) \<times> string list \<Rightarrow>
    nat list \<times> (string \<rightharpoonup> nat) \<times> (nat \<Rightarrow> vnode) \<times> string list" where
  "raw_step production td c st =
     (case st of (children, mp, vs, ws) \<Rightarrow>
        if truthy_str (vn_tag (vs c)) then
          (if key_ok (vs c)
           then (children @ [c], mp(prop_name (vn_key (vs c)) \<mapsto> c),
                 vs(c := set_transition td (vs c)), ws)
           else if \<not> production then (children, mp, vs, ws @ [keyed_warning (vs c)])
           else (children, mp, vs, ws))
        else (children, mp, vs, ws))"

text \<open>
  The second loop, over \<open>prevChildren\<close>: \<open>c.data.transition = ...\<close> and
  \<open>c.elm.getBoundingClientRect()\<close> raise a TypeError when \<open>c.data\<close> or \<open>c.elm\<close> is
  undefined. \<open>getRect\<close> gives the rectangle of a DOM element.
\<close>

fun prev_loop :: "nat \<Rightarrow> (nat \<Rightarrow> rect) \<Rightarrow> (string \<rightharpoonup> nat) \<Rightarrow> nat list \<Rightarrow>
    nat list \<times> nat list \<times> (nat \<Rightarrow> vnode) \<Rightarrow> exn + nat list \<times> nat list \<times> (nat \<Rightarrow> vnode)" where
  "prev_loop td getRect mp [] acc = Inr acc"
| "prev_loop td getRect mp (c # cs) (kept, removed, vs) =
     (case vn_data (vs c) of
        None \<Rightarrow> Inl TypeError
      | Some d \<Rightarrow>
          (case vn_elm (vs c) of
             None \<Rightarrow> Inl TypeError
           | Some el \<Rightarrow>
               (let vs1 = vs(c := (vs c)\<lparr>vn_data :=
                              Some (d\<lparr>d_transition := Some td, d_pos := Some (getRect el)\<rparr>)\<rparr>)
                in if mp (prop_name (vn_key (vs c))) \<noteq> None
                   then prev_loop td getRect mp cs (kept @ [c], removed, vs1)
                   else prev_loop td getRect mp cs (kept, removed @ [c], vs1))))"

text \<open>
  \<open>render(h)\<close>: \<open>h(tag, null, children)\<close> is the element VNode with this tag and these
  children.
\<close>

definition render :: "nat \<Rightarrow> (nat \<Rightarrow> rect) \<Rightarrow> bool \<Rightarrow> tgroup \<Rightarrow> exn + out_vnode \<times> tgroup" where
  "render td getRect production g =
     (let tag = (if truthy_str (tg_tag g) then the (tg_tag g)
                 else if truthy_str (tg_vnode_data_tag g) then the (tg_vnode_data_tag g)
                 else ''span'');
          prevChildren = tg_children g;
          rawChildren = (case tg_slots_default g of Some r \<Rightarrow> r | None \<Rightarrow> [])
      in case fold (raw_step production td) rawChildren
                ([], Map.empty, tg_vnodes g, tg_warnings g) of
           (children, mp, vs, ws) \<Rightarrow>
             (let g1 = g\<lparr>tg_prevChildren := prevChildren, tg_children := Some children,
                         tg_vnodes := vs, tg_warnings := ws\<rparr>;
                  out = \<lparr>ov_tag = tag, ov_children = children\<rparr>
              in case prevChildren of
                   None \<Rightarrow> Inr (out, g1)
                 | Some pcs \<Rightarrow>
                     (case prev_loop td getRect mp pcs ([], [], vs) of
                        Inl e \<Rightarrow> Inl e
                      | Inr (kept, removed, vs1) \<Rightarrow>
                          Inr (out, g1\<lparr>tg_kept := Some \<lparr>ov_tag = tag, ov_children = kept\<rparr>,
                                      tg_removed := Some removed, tg_vnodes := vs1\<rparr>))))"

text \<open>The two branches of the first loop for an element child, and the data a kept child gets.\<close>

definition kept_child :: "vnode \<Rightarrow> bool" where
  "kept_child c = (truthy_str (vn_tag c) \<and> key_ok c)"

definition unkeyed_child :: "vnode \<Rightarrow> bool" where
  "unkeyed_child c = (truthy_str (vn_tag c) \<and> \<not> key_ok c)"

definition has_transition :: "nat \<Rightarrow> vnode \<Rightarrow> bool" where
  "has_transition td c = (case vn_data c of None \<Rightarrow> False | Some d \<Rightarrow> d_transition d = Some td)"

text \<open>The children lists that \<open>render\<close> reads, and when its second loop cannot fail.\<close>

definition raw_children :: "tgroup \<Rightarrow> nat list" where
  "raw_children g = (case tg_slots_default g of Some r \<Rightarrow> r | None \<Rightarrow> [])"

definition prev_children :: "tgroup \<Rightarrow> nat list" where
  "prev_children g = (case tg_children g of Some p \<Rightarrow> p | None \<Rightarrow> [])"

definition raw_store :: "nat \<Rightarrow> nat list \<Rightarrow> (nat \<Rightarrow> vnode) \<Rightarrow> nat \<Rightarrow> vnode" where
  "raw_store td raw vs =
     (\<lambda>c. if c \<in> set raw \<and> kept_child (vs c) then set_transition td (vs c) else vs c)"

definition prev_ready :: "tgroup \<Rightarrow> bool" where
  "prev_ready g = (case tg_children g of None \<Rightarrow> True
     | Some pcs \<Rightarrow> list_all (\<lambda>c. vn_data (tg_vnodes g c) \<noteq> None \<and>
                                   vn_elm (tg_vnodes g c) \<noteq> None) pcs)"

text \<open>
  What a render leaves in \<open>this.children\<close>: element children with an accepted key.
  \<open>children_keyed\<close> holds before the first render and after every render.
\<close>

definition children_keyed :: "tgroup \<Rightarrow> bool" where
  "children_keyed g = (case tg_children g of None \<Rightarrow> True
     | Some pcs \<Rightarrow> list_all (\<lambda>c. kept_child (tg_vnodes g c)) pcs)"

text \<open>A VNode with nothing set.\<close>

definition vnode0 :: vnode where
  "vnode0 = \<lparr>vn_tag = None, vn_key = KUndefined, vn_data = None, vn_elm = None,
     vn_componentOptions = None\<rparr>"

text \<open>
  A re-render. The previous children are 1 (key \<open>a\<close>) and 4 (key 7), both rendered
  before. The slot now holds 4, a child without key (2), a new child with key \<open>b\<close> (5)
  and a child with key \<open>__vlist_1_0\<close> (3).
\<close>

definition tgroup1 :: tgroup where
  "tgroup1 = \<lparr>tg_tag = None, tg_vnode_data_tag = None, tg_slots_default = Some [4, 2, 5, 3],
     tg_children = Some [1, 4], tg_prevChildren = None, tg_kept = None, tg_removed = None,
     tg_vnodes = (\<lambda>_. vnode0)
       (1 := vnode0\<lparr>vn_tag := Some ''li'', vn_key := KStr ''a'',
                   vn_data := Some \<lparr>d_transition = Some 5, d_pos = None\<rparr>, vn_elm := Some 11\<rparr>,
        2 := vnode0\<lparr>vn_tag := Some ''li''\<rparr>,
        3 := vnode0\<lparr>vn_tag := Some ''li'', vn_key := KStr ''__vlist_1_0''\<rparr>,
        4 := vnode0\<lparr>vn_tag := Some ''li'', vn_key := KNum ''7'',
                   vn_data := Some \<lparr>d_transition = Some 5, d_pos = None\<rparr>, vn_elm := Some 14\<rparr>,
        5 := vnode0\<lparr>vn_tag := Some ''li'', vn_key := KStr ''b''\<rparr>),
     tg_warnings = []\<rparr>"

section \<open>Async component resolver (core/vdom/helpers/resolve-async-component.js)\<close>

text \<open>
  What a factory resolves with (and what \<open>error\<close> and \<open>loading\<close> hold): an ES module
  object with its \<open>default\<close>, a plain options object, a constructor function, or the
  constructor \<open>base.extend(c)\<close> (\<open>Vue.extend\<close>, not under src).
\<close>

datatype comp = Module comp | Options nat | Ctor nat | Extended comp

definition isObject :: "comp \<Rightarrow> bool" where
  "isObject c = (case c of Module _ \<Rightarrow> True | Options _ \<Rightarrow> True | _ \<Rightarrow> False)"

definition ensureCtor :: "comp \<Rightarrow> comp" where
  "ensureCtor c =
     (let c1 = (case c of Module d \<Rightarrow> d | _ \<Rightarrow> c)
      in if isObject c1 then Extended c1 else c1)"

text \<open>
  The properties this file keeps on the factory function. \<open>owners\<close> is an array object,
  shared with the closure that created it: it is held by reference.
\<close>

record factory =
  f_resolved :: "comp option"
  f_error :: bool
  f_errorComp :: "comp option"
  f_loading :: bool
  f_loadingComp :: "comp option"
  f_owners :: "nat option"

text \<open>
  The variables of one invocation branch of \<open>resolveAsyncComponent\<close>: \<open>owners\<close>, \<open>owner\<close>,
  \<open>sync\<close>, the two timers (the delay of a pending timer), and the flags of the two
  \<open>once\<close> wrappers.
  Modelled from the spec: \<open>once\<close> of core/util (not under src), "explicit state flag
  (fired: bool) checked before executing effect".
\<close>

record closure =
  c_owners :: nat
  c_owner :: nat
  c_sync :: bool
  c_timerLoading :: "nat option"
  c_timerTimeout :: "nat option"
  c_resolve_called :: bool
  c_reject_called :: bool

text \<open>
  The factory is user code. One invocation calls \<open>resolve\<close> and \<open>reject\<close> synchronously
  some number of times, then returns: something that is not an object, a Promise, an
  object whose \<open>component\<close> is a Promise (with its \<open>error\<close>, \<open>loading\<close>, \<open>delay\<close> and
  \<open>timeout\<close>), or another object.
\<close>

datatype cbcall = CallResolve comp | CallReject

datatype fres = NotObject | Promise | Descriptor "comp option" "comp option" "nat option" "nat option"
  | OtherObject

record fbeh =
  fb_sync :: "cbcall list"
  fb_res :: fres

text \<open>
  The state: the factory, the arrays, the closures (closure \<open>k\<close> belongs to the
  invocation number \<open>k\<close> of the factory, and \<open>a_calls\<close> counts the invocations), the
  instances on which \<open>$forceUpdate()\<close> was called, in order, the number of warnings, and
  the closures whose callbacks were handed to a Promise's \<open>then\<close>.
\<close>

record aworld =
  a_factory :: factory
  a_arrays :: "nat \<Rightarrow> nat list"
  a_closures :: "nat \<Rightarrow> closure"
  a_calls :: nat
  a_forced :: "nat list"
  a_warned :: nat
  a_thens :: "nat list"

definition forceRender :: "nat \<Rightarrow> bool \<Rightarrow> aworld \<Rightarrow> aworld" where
  "forceRender k renderCompleted s =
     (let cl = a_closures s k;
          s1 = s\<lparr>a_forced := a_forced s @ a_arrays s (c_owners cl)\<rparr>
      in if renderCompleted
         then s1\<lparr>a_arrays := (a_arrays s1)(c_owners cl := []),
                 a_closures := (a_closures s1)
                   (k := cl\<lparr>c_timerLoading := None, c_timerTimeout := None\<rparr>)\<rparr>
         else s1)"

definition resolve_cb :: "nat \<Rightarrow> comp \<Rightarrow> aworld \<Rightarrow> aworld" where
  "resolve_cb k res s =
     (let cl = a_closures s k in
      if c_resolve_called cl then s
      else (let s1 = s\<lparr>a_closures := (a_closures s)(k := cl\<lparr>c_resolve_called := True\<rparr>),
                       a_factory := (a_factory s)\<lparr>f_resolved := Some (ensureCtor res)\<rparr>\<rparr>
            in if \<not> c_sync cl then forceRender k True s1
               else s1\<lparr>a_arrays := (a_arrays s1)(c_owners cl := [])\<rparr>))"

definition reject_cb :: "bool \<Rightarrow> nat \<Rightarrow> aworld \<Rightarrow> aworld" where
  "reject_cb production k s =
     (let cl = a_closures s k in
      if c_reject_called cl then s
      else (let s1 = s\<lparr>a_closures := (a_closures s)(k := cl\<lparr>c_reject_called := True\<rparr>),
                       a_warned := (if production then a_warned s else Suc (a_warned s))\<rparr>
            in if f_errorComp (a_factory s1) \<noteq> None
               then forceRender k True (s1\<lparr>a_factory := (a_factory s1)\<lparr>f_error := True\<rparr>\<rparr>)
               else s1))"

fun run_sync :: "bool \<Rightarrow> nat \<Rightarrow> cbcall list \<Rightarrow> aworld \<Rightarrow> aworld" where
  "run_sync production k [] s = s"
| "run_sync production k (CallResolve res # cs) s = run_sync production k cs (resolve_cb k res s)"
| "run_sync production k (CallReject # cs) s = run_sync production k cs (reject_cb production k s)"

text \<open>What \<open>resolveAsyncComponent\<close> does with the value the factory returned.\<close>

definition handle_res :: "nat \<Rightarrow> fres \<Rightarrow> aworld \<Rightarrow> aworld" where
  "handle_res k res s =
     (case res of
        Promise \<Rightarrow> if f_resolved (a_factory s) = None then s\<lparr>a_thens := a_thens s @ [k]\<rparr> else s
      | Descriptor err loading delay timeout \<Rightarrow>
          (let s1 = s\<lparr>a_thens := a_thens s @ [k]\<rparr>;
               s2 = (case err of
                       Some e \<Rightarrow> s1\<lparr>a_factory := (a_factory s1)\<lparr>f_errorComp := Some (ensureCtor e)\<rparr>\<rparr>
                     | None \<Rightarrow> s1);
               s3 = (case loading of
                       Some l \<Rightarrow>
                         (let s' = s2\<lparr>a_factory := (a_factory s2)\<lparr>f_loadingComp := Some (ensureCtor l)\<rparr>\<rparr>
                          in if delay = Some 0
                             then s'\<lparr>a_factory := (a_factory s')\<lparr>f_loading := True\<rparr>\<rparr>
                             else s'\<lparr>a_closures := (a_closures s')
                                      (k := (a_closures s' k)\<lparr>c_timerLoading :=
                                         Some (case delay of Some d \<Rightarrow> d | None \<Rightarrow> 200)\<rparr>)\<rparr>)
                     | None \<Rightarrow> s2)
           in case timeout of
                Some t \<Rightarrow> s3\<lparr>a_closures := (a_closures s3)
                                (k := (a_closures s3 k)\<lparr>c_timerTimeout := Some t\<rparr>)\<rparr>
              | None \<Rightarrow> s3)
      | _ \<Rightarrow> s)"

text \<open>
  \<open>resolveAsyncComponent(factory, baseCtor)\<close>; \<open>owner\<close> is \<open>currentRenderingInstance\<close>
  (core/instance/render, not under src), \<open>fb\<close> is what the factory does if this call
  invokes it.
\<close>

definition resolveAsyncComponent :: "bool \<Rightarrow> fbeh \<Rightarrow> nat option \<Rightarrow> aworld \<Rightarrow> comp option \<times> aworld" where
  "resolveAsyncComponent production fb owner s =
     (let f = a_factory s in
      if f_error f \<and> f_errorComp f \<noteq> None then (f_errorComp f, s)
      else if f_resolved f \<noteq> None then (f_resolved f, s)
      else
        (let s1 = (case (owner, f_owners f) of
                     (Some ow, Some a) \<Rightarrow>
                       if ow \<notin> set (a_arrays s a)
                       then s\<lparr>a_arrays := (a_arrays s)(a := a_arrays s a @ [ow])\<rparr> else s
                   | _ \<Rightarrow> s)
         in if f_loading f \<and> f_loadingComp f \<noteq> None then (f_loadingComp f, s1)
            else (case (owner, f_owners f) of
                    (Some ow, None) \<Rightarrow>
                      (let k = a_calls s1;
                           s2 = s1\<lparr>a_arrays := (a_arrays s1)(k := [ow]),
                                   a_factory := (a_factory s1)\<lparr>f_owners := Some k\<rparr>,
                                   a_closures := (a_closures s1)
                                     (k := \<lparr>c_owners = k, c_owner = ow, c_sync = True,
                                             c_timerLoading = None, c_timerTimeout = None,
                                             c_resolve_called = False, c_reject_called = False\<rparr>),
                                   a_calls := Suc k\<rparr>;
                           s3 = run_sync production k (fb_sync fb) s2;
                           s4 = handle_res k (fb_res fb) s3;
                           s5 = s4\<lparr>a_closures := (a_closures s4)(k := (a_closures s4 k)\<lparr>c_sync := False\<rparr>)\<rparr>
                       in (if f_loading (a_factory s5) then f_loadingComp (a_factory s5)
                           else f_resolved (a_factory s5), s5))
                  | _ \<Rightarrow> (None, s1))))"

text \<open>The callbacks of the two timers (a cleared timer does not fire), and of \<open>hook:destroyed\<close>.\<close>

definition timerLoading_fires :: "nat \<Rightarrow> aworld \<Rightarrow> aworld" where
  "timerLoading_fires k s =
     (case c_timerLoading (a_closures s k) of
        None \<Rightarrow> s
      | Some _ \<Rightarrow>
          (let s1 = s\<lparr>a_closures := (a_closures s)(k := (a_closures s k)\<lparr>c_timerLoading := None\<rparr>)\<rparr>
           in if f_resolved (a_factory s1) = None \<and> \<not> f_error (a_factory s1)
              then forceRender k False (s1\<lparr>a_factory := (a_factory s1)\<lparr>f_loading := True\<rparr>\<rparr>)
              else s1))"

definition timerTimeout_fires :: "bool \<Rightarrow> nat \<Rightarrow> aworld \<Rightarrow> aworld" where
  "timerTimeout_fires production k s =
     (case c_timerTimeout (a_closures s k) of
        None \<Rightarrow> s
      | Some _ \<Rightarrow>
          (let s1 = s\<lparr>a_closures := (a_closures s)(k := (a_closures s k)\<lparr>c_timerTimeout := None\<rparr>)\<rparr>
           in if f_resolved (a_factory s1) = None then reject_cb production k s1 else s1))"

definition owner_destroyed :: "nat \<Rightarrow> aworld \<Rightarrow> aworld" where
  "owner_destroyed k s =
     (let cl = a_closures s k
      in s\<lparr>a_arrays := (a_arrays s)(c_owners cl := remove_item (a_arrays s (c_owners cl)) (c_owner cl))\<rparr>)"

text \<open>
  What can happen to a factory: a component requests it, or a callback of closure \<open>k\<close>
  is invoked (by the Promise, by a timer, by user code, by the owner's destruction). A
  callback exists once its closure does.
\<close>

datatype aevent = Request "nat option" fbeh | Resolve nat comp | Reject nat | LoadingTimer nat
  | TimeoutTimer nat | OwnerDestroyed nat

definition event_closure :: "aevent \<Rightarrow> nat option" where
  "event_closure ev = (case ev of Request _ _ \<Rightarrow> None | Resolve k _ \<Rightarrow> Some k | Reject k \<Rightarrow> Some k
     | LoadingTimer k \<Rightarrow> Some k | TimeoutTimer k \<Rightarrow> Some k | OwnerDestroyed k \<Rightarrow> Some k)"

definition astep :: "bool \<Rightarrow> aevent \<Rightarrow> aworld \<Rightarrow> aworld" where
  "astep production ev s =
     (case ev of
        Request owner fb \<Rightarrow> snd (resolveAsyncComponent production fb owner s)
      | Resolve k res \<Rightarrow> if k < a_calls s then resolve_cb k res s else s
      | Reject k \<Rightarrow> if k < a_calls s then reject_cb production k s else s
      | LoadingTimer k \<Rightarrow> if k < a_calls s then timerLoading_fires k s else s
      | TimeoutTimer k \<Rightarrow> if k < a_calls s then timerTimeout_fires production k s else s
      | OwnerDestroyed k \<Rightarrow> if k < a_calls s then owner_destroyed k s else s)"

definition arun :: "bool \<Rightarrow> aevent list \<Rightarrow> aworld \<Rightarrow> aworld" where
  "arun production evs s = fold (astep production) evs s"

text \<open>A factory that was never requested.\<close>

definition factory0 :: factory where
  "factory0 = \<lparr>f_resolved = None, f_error = False, f_errorComp = None, f_loading = False,
     f_loadingComp = None, f_owners = None\<rparr>"

definition closure0 :: closure where
  "closure0 = \<lparr>c_owners = 0, c_owner = 0, c_sync = False, c_timerLoading = None,
     c_timerTimeout = None, c_resolve_called = False, c_reject_called = False\<rparr>"

definition aworld0 :: aworld where
  "aworld0 = \<lparr>a_factory = factory0, a_arrays = (\<lambda>_. []), a_closures = (\<lambda>_. closure0),
     a_calls = 0, a_forced = [], a_warned = 0, a_thens = []\<rparr>"

definition owners_now :: "aworld \<Rightarrow> nat list" where
  "owners_now s = (case f_owners (a_factory s) of None \<Rightarrow> [] | Some a \<Rightarrow> a_arrays s a)"

text \<open>
  The argument of the first synchronous call of \<open>resolve\<close>; whether the returned value
  makes \<open>factory.loading\<close> true at once; the fields that synchronous calls of \<open>reject\<close>
  leave alone; the state right after the closure is created; and the states between
  two events once the factory has been invoked.
\<close>

fun first_resolve :: "cbcall list \<Rightarrow> comp option" where
  "first_resolve [] = None"
| "first_resolve (CallResolve res # cs) = Some res"
| "first_resolve (CallReject # cs) = first_resolve cs"

definition zero_delay_loading :: "fres \<Rightarrow> bool" where
  "zero_delay_loading res =
     (case res of Descriptor _ (Some _) (Some d) _ \<Rightarrow> d = 0 | _ \<Rightarrow> False)"

definition sync_core :: "nat \<Rightarrow> aworld \<Rightarrow>
    nat list \<times> factory \<times> (nat \<Rightarrow> nat list) \<times> bool \<times> bool \<times> nat \<times> nat option \<times> nat option \<times> nat \<times> nat list" where
  "sync_core k s = (a_forced s, a_factory s, a_arrays s, c_resolve_called (a_closures s k),
     c_sync (a_closures s k), c_owners (a_closures s k), c_timerLoading (a_closures s k),
     c_timerTimeout (a_closures s k), a_calls s, a_thens s)"

definition invoke_state :: "nat \<Rightarrow> aworld \<Rightarrow> aworld" where
  "invoke_state ow s =
     s\<lparr>a_arrays := (a_arrays s)(a_calls s := [ow]),
       a_factory := (a_factory s)\<lparr>f_owners := Some (a_calls s)\<rparr>,
       a_closures := (a_closures s)
         (a_calls s := \<lparr>c_owners = a_calls s, c_owner = ow, c_sync = True,
                 c_timerLoading = None, c_timerTimeout = None,
                 c_resolve_called = False, c_reject_called = False\<rparr>),
       a_calls := Suc (a_calls s)\<rparr>"

definition pending_inv :: "aworld \<Rightarrow> bool" where
  "pending_inv s = (a_calls s = 1 \<and> f_owners (a_factory s) = Some 0 \<and>
     c_owners (a_closures s 0) = 0 \<and> distinct (a_arrays s 0))"

definition ainv :: "aworld \<Rightarrow> bool" where
  "ainv s = ((a_calls s = 0 \<and> a_factory s = factory0) \<or>
             (pending_inv s \<and> \<not> c_sync (a_closures s 0)))"

text \<open>
  The states in which the first invocation's \<open>resolve\<close> has run, no error component is
  set and no timer is pending.
\<close>

definition settled :: "aworld \<Rightarrow> bool" where
  "settled s = (a_calls s = 1 \<and> f_resolved (a_factory s) \<noteq> None \<and>
     \<not> f_error (a_factory s) \<and> f_errorComp (a_factory s) = None \<and>
     c_resolve_called (a_closures s 0) \<and> c_timerLoading (a_closures s 0) = None \<and>
     c_timerTimeout (a_closures s 0) = None)"

text \<open>
  A factory that returns a Promise, and one that calls \<open>resolve\<close> at once and returns a
  loading component with delay 0.
\<close>

definition fb_pending :: fbeh where
  "fb_pending = \<lparr>fb_sync = [], fb_res = Promise\<rparr>"

definition fb_sync_loading :: fbeh where
  "fb_sync_loading = \<lparr>fb_sync = [CallResolve (Ctor 1)],
     fb_res = Descriptor None (Some (Ctor 2)) (Some 0) None\<rparr>"

section \<open>Transition enter and leave (platforms/web/runtime/modules/transition.js)\<close>

text \<open>
  A hook is a function: a plain function or wrapped component method with its declared
  number of arguments (\<open>fn._length || fn.length\<close>), or a merged invoker with the original
  in \<open>fns\<close> (one function, or an array of them).
\<close>

datatype hookfn = PlainFn nat | Invoker hookfn | InvokerList "hookfn list"

fun hook_wants_control :: "hookfn \<Rightarrow> bool" where
  "hook_wants_control (PlainFn n) = (1 < n)"
| "hook_wants_control (Invoker f) = hook_wants_control f"
| "hook_wants_control (InvokerList []) = False"
| "hook_wants_control (InvokerList (f # fs)) = hook_wants_control f"

definition getHookArgumentsLength :: "hookfn option \<Rightarrow> bool" where
  "getHookArgumentsLength fn = (case fn of None \<Rightarrow> False | Some f \<Rightarrow> hook_wants_control f)"

text \<open>
  The hooks of the transition data by name, and the local variables of \<open>enter\<close> and
  \<open>leave\<close> through which they are called.
\<close>

datatype hookname = H_beforeEnter | H_enter | H_afterEnter | H_enterCancelled
  | H_beforeAppear | H_appear | H_afterAppear | H_appearCancelled
  | H_beforeLeave | H_leave | H_afterLeave | H_leaveCancelled | H_delayLeave

datatype role = BeforeEnterHook | EnterHook | AfterEnterHook | EnterCancelledHook
  | BeforeLeaveHook | LeaveHook | AfterLeaveHook | LeaveCancelledHook

text \<open>
  \<open>appear\<close> is falsy and not the empty string, the empty string, another truthy value, or a
  function. A duration is what \<open>toNumber\<close> gives: \<open>undefined\<close>, a number, \<open>NaN\<close>, or a
  value that is not a number.
\<close>

datatype appear = AppearFalsy | AppearEmptyString | AppearTruthy | AppearFunction hookfn

datatype jsdur = DUndefined | DNumber nat | DNaN | DNotNumber

datatype duration = DurPlain jsdur | DurObject jsdur jsdur

text \<open>
  What \<open>resolveTransition(vnode.data.transition)\<close> returns (transition-util is not under
  src); \<open>undefined\<close> is \<open>None\<close> in \<open>tv_transition\<close>. Its \<open>type\<close> is only handed on to
  \<open>whenTransitionEnds\<close> and is left out.
\<close>

record tdata =
  t_css :: "bool option"
  t_enterClass :: "string option"
  t_enterToClass :: "string option"
  t_enterActiveClass :: "string option"
  t_appearClass :: "string option"
  t_appearToClass :: "string option"
  t_appearActiveClass :: "string option"
  t_leaveClass :: "string option"
  t_leaveToClass :: "string option"
  t_leaveActiveClass :: "string option"
  t_beforeEnter :: "hookfn option"
  t_enter :: "hookfn option"
  t_afterEnter :: "hookfn option"
  t_enterCancelled :: "hookfn option"
  t_beforeAppear :: "hookfn option"
  t_appear :: appear
  t_afterAppear :: "hookfn option"
  t_appearCancelled :: "hookfn option"
  t_beforeLeave :: "hookfn option"
  t_leave :: "hookfn option"
  t_afterLeave :: "hookfn option"
  t_leaveCancelled :: "hookfn option"
  t_delayLeave :: "hookfn option"
  t_duration :: duration

record tvnode =
  tv_elm :: nat
  tv_transition :: "tdata option"
  tv_show :: bool
  tv_key :: string
  tv_tag :: "string option"
  tv_isRootInsert :: bool

text \<open>
  A DOM element with the two callback slots; callbacks are objects in a store, referred
  to by number.
\<close>

record telement =
  e_leaveCb :: "nat option"
  e_enterCb :: "nat option"
  e_nodeType :: nat
  e_parentNode :: "nat option"

text \<open>
  The variables that the callback of \<open>enter\<close>, and that of \<open>leave\<close>, closes over. A callback
  is the \<open>once\<close> wrapper around its body, with the wrapper's flag and the \<open>cancelled\<close>
  property.
  Modelled from the spec: \<open>once\<close> of shared/util (not under src), "explicit state flag
  (fired: bool) checked before executing effect".
\<close>

record enter_env =
  ee_el :: nat
  ee_expectsCSS :: bool
  ee_startClass :: "string option"
  ee_activeClass :: "string option"
  ee_toClass :: "string option"
  ee_enterCancelledHook :: "hookname option"
  ee_afterEnterHook :: "hookname option"

record leave_env =
  le_el :: nat
  le_key :: string
  le_expectsCSS :: bool
  le_leaveClass :: "string option"
  le_leaveToClass :: "string option"
  le_leaveActiveClass :: "string option"
  le_leaveCancelled :: "hookname option"
  le_afterLeave :: "hookname option"

datatype cb_body = EnterBody enter_env | LeaveBody leave_env

record tcallback =
  cb_called :: bool
  cb_cancelled :: bool
  cb_body :: cb_body

text \<open>
  The closures that \<open>enter\<close> and \<open>leave\<close> hand to \<open>nextFrame\<close>, \<open>mergeVNodeHook\<close> and
  \<open>delayLeave\<close>, with the variables they close over.
\<close>

record enter_frame =
  ef_el :: nat
  ef_cb :: nat
  ef_startClass :: "string option"
  ef_toClass :: "string option"
  ef_userWantsControl :: bool
  ef_duration :: jsdur

record insert_closure =
  ic_el :: nat
  ic_key :: string
  ic_tag :: "string option"
  ic_enterHook :: "hookname option"
  ic_cb :: nat

record leave_frame =
  lf_el :: nat
  lf_cb :: nat
  lf_leaveClass :: "string option"
  lf_leaveToClass :: "string option"
  lf_userWantsControl :: bool
  lf_duration :: jsdur

record leave_closure =
  lc_vnode :: tvnode
  lc_cb :: nat
  lc_expectsCSS :: bool
  lc_userWantsControl :: bool
  lc_leaveClass :: "string option"
  lc_leaveToClass :: "string option"
  lc_leaveActiveClass :: "string option"
  lc_beforeLeave :: "hookname option"
  lc_leave :: "hookname option"
  lc_duration :: jsdur

text \<open>
  What \<open>enter\<close> and \<open>leave\<close> do to the outside, in order: hook calls, class changes
  (\<open>addTransitionClass\<close>, \<open>removeTransitionClass\<close>), \<open>rm()\<close>, \<open>toggleDisplay()\<close>, warnings of
  \<open>checkDuration\<close>, and closures and callbacks handed to \<open>nextFrame\<close>, \<open>mergeVNodeHook\<close>,
  \<open>delayLeave\<close>, \<open>setTimeout\<close> and \<open>whenTransitionEnds\<close>.
\<close>

datatype effect =
    HookCall role hookname nat
  | AddTransitionClass nat "string option"
  | RemoveTransitionClass nat "string option"
  | Rm nat
  | ToggleDisplay
  | WarnDuration string jsdur
  | NextFrameEnter enter_frame
  | NextFrameLeave leave_frame
  | MergeInsertHook insert_closure
  | DelayLeaveCall leave_closure
  | SetTimeout nat nat
  | WhenTransitionEnds nat nat

text \<open>
  The state: the elements, the callbacks, the number of callbacks created, the
  \<open>_pending\<close> table of every parent node, and the effects so far.
\<close>

record tworld =
  t_els :: "nat \<Rightarrow> telement"
  t_cbs :: "nat \<Rightarrow> tcallback"
  t_next :: nat
  t_pending :: "nat \<Rightarrow> (string \<Rightarrow> tvnode option) option"
  t_effects :: "effect list"

definition emit :: "effect list \<Rightarrow> tworld \<Rightarrow> tworld" where
  "emit es s = s\<lparr>t_effects := t_effects s @ es\<rparr>"

definition hook_call :: "role \<Rightarrow> hookname option \<Rightarrow> nat \<Rightarrow> effect list" where
  "hook_call r h el = (case h of Some n \<Rightarrow> [HookCall r n el] | None \<Rightarrow> [])"

text \<open>The bodies of the two callbacks, given \<open>cb.cancelled\<close>.\<close>

definition enter_cb_effects :: "enter_env \<Rightarrow> bool \<Rightarrow> effect list" where
  "enter_cb_effects env cancelled =
     (if ee_expectsCSS env
      then [RemoveTransitionClass (ee_el env) (ee_toClass env),
            RemoveTransitionClass (ee_el env) (ee_activeClass env)]
      else []) @
     (if cancelled
      then (if ee_expectsCSS env then [RemoveTransitionClass (ee_el env) (ee_startClass env)]
            else []) @
           hook_call EnterCancelledHook (ee_enterCancelledHook env) (ee_el env)
      else hook_call AfterEnterHook (ee_afterEnterHook env) (ee_el env))"

definition leave_cb_effects :: "leave_env \<Rightarrow> bool \<Rightarrow> effect list" where
  "leave_cb_effects env cancelled =
     (if le_expectsCSS env
      then [RemoveTransitionClass (le_el env) (le_leaveToClass env),
            RemoveTransitionClass (le_el env) (le_leaveActiveClass env)]
      else []) @
     (if cancelled
      then (if le_expectsCSS env then [RemoveTransitionClass (le_el env) (le_leaveClass env)]
            else []) @
           hook_call LeaveCancelledHook (le_leaveCancelled env) (le_el env)
      else Rm (le_el env) # hook_call AfterLeaveHook (le_afterLeave env) (le_el env))"

definition clear_pending :: "nat \<Rightarrow> string \<Rightarrow> tworld \<Rightarrow> tworld" where
  "clear_pending el key s =
     (case e_parentNode (t_els s el) of
        None \<Rightarrow> s
      | Some p \<Rightarrow> (case t_pending s p of
                     None \<Rightarrow> s
                   | Some tbl \<Rightarrow> s\<lparr>t_pending := (t_pending s)(p := Some (tbl(key := None)))\<rparr>))"

definition run_cb_body :: "nat \<Rightarrow> tworld \<Rightarrow> tworld" where
  "run_cb_body r s =
     (case cb_body (t_cbs s r) of
        EnterBody env \<Rightarrow>
          (let s1 = emit (enter_cb_effects env (cb_cancelled (t_cbs s r))) s
           in s1\<lparr>t_els := (t_els s1)(ee_el env := (t_els s1 (ee_el env))\<lparr>e_enterCb := None\<rparr>)\<rparr>)
      | LeaveBody env \<Rightarrow>
          (let s1 = clear_pending (le_el env) (le_key env) s;
               s2 = emit (leave_cb_effects env (cb_cancelled (t_cbs s r))) s1
           in s2\<lparr>t_els := (t_els s2)(le_el env := (t_els s2 (le_el env))\<lparr>e_leaveCb := None\<rparr>)\<rparr>))"

text \<open>
  Calling a callback, and \<open>cb.cancelled = true; cb()\<close>, the first statements of \<open>enter\<close>
  (on \<open>el._leaveCb\<close>) and of \<open>leave\<close> (on \<open>el._enterCb\<close>).
\<close>

definition invoke_cb :: "nat \<Rightarrow> tworld \<Rightarrow> tworld" where
  "invoke_cb r s =
     (if cb_called (t_cbs s r) then s
      else run_cb_body r (s\<lparr>t_cbs := (t_cbs s)(r := (t_cbs s r)\<lparr>cb_called := True\<rparr>)\<rparr>))"

definition cancel_cb :: "nat \<Rightarrow> tworld \<Rightarrow> tworld" where
  "cancel_cb r s = invoke_cb r (s\<lparr>t_cbs := (t_cbs s)(r := (t_cbs s r)\<lparr>cb_cancelled := True\<rparr>)\<rparr>)"

definition cancel_pending_leave :: "nat \<Rightarrow> tworld \<Rightarrow> tworld" where
  "cancel_pending_leave el s = (case e_leaveCb (t_els s el) of Some r \<Rightarrow> cancel_cb r s | None \<Rightarrow> s)"

definition cancel_pending_enter :: "nat \<Rightarrow> tworld \<Rightarrow> tworld" where
  "cancel_pending_enter el s = (case e_enterCb (t_els s el) of Some r \<Rightarrow> cancel_cb r s | None \<Rightarrow> s)"

text \<open>\<open>const cb = el._enterCb = once(...)\<close> and \<open>const cb = el._leaveCb = once(...)\<close>\<close>

definition alloc_enter_cb :: "enter_env \<Rightarrow> tworld \<Rightarrow> tworld" where
  "alloc_enter_cb env s =
     s\<lparr>t_next := Suc (t_next s),
       t_cbs := (t_cbs s)(t_next s := \<lparr>cb_called = False, cb_cancelled = False,
                   cb_body = EnterBody env\<rparr>),
       t_els := (t_els s)(ee_el env := (t_els s (ee_el env))\<lparr>e_enterCb := Some (t_next s)\<rparr>)\<rparr>"

definition alloc_leave_cb :: "leave_env \<Rightarrow> tworld \<Rightarrow> tworld" where
  "alloc_leave_cb env s =
     s\<lparr>t_next := Suc (t_next s),
       t_cbs := (t_cbs s)(t_next s := \<lparr>cb_called = False, cb_cancelled = False,
                   cb_body = LeaveBody env\<rparr>),
       t_els := (t_els s)(le_el env := (t_els s (le_el env))\<lparr>e_leaveCb := Some (t_next s)\<rparr>)\<rparr>"

definition named :: "hookname \<Rightarrow> hookfn option \<Rightarrow> hookname option" where
  "named n h = (case h of Some _ \<Rightarrow> Some n | None \<Rightarrow> None)"

definition or_hook :: "hookname option \<Rightarrow> hookname option \<Rightarrow> hookname option" where
  "or_hook a b = (case a of Some n \<Rightarrow> Some n | None \<Rightarrow> b)"

definition pick_class :: "bool \<Rightarrow> string option \<Rightarrow> string option \<Rightarrow> string option" where
  "pick_class isAppear a e = (if isAppear \<and> truthy_str a then a else e)"

definition checkDuration :: "jsdur \<Rightarrow> string \<Rightarrow> effect list" where
  "checkDuration v name =
     (case v of DNumber _ \<Rightarrow> [] | DNaN \<Rightarrow> [WarnDuration name DNaN] | _ \<Rightarrow> [WarnDuration name v])"

definition isValidDuration :: "jsdur \<Rightarrow> bool" where
  "isValidDuration v = (case v of DNumber _ \<Rightarrow> True | _ \<Rightarrow> False)"

definition duration_ms :: "jsdur \<Rightarrow> nat" where
  "duration_ms v = (case v of DNumber n \<Rightarrow> n | _ \<Rightarrow> 0)"

text \<open>
  \<open>enter\<close> from the destructuring of \<open>data\<close> on. \<open>context_isMounted\<close> is \<open>context._isMounted\<close>
  of the context the loop over \<open>activeInstance.$vnode\<close> ends with (core/instance/lifecycle
  is not under src); \<open>toggleDisplay\<close> says whether the argument was passed.
\<close>

definition enter_main :: "bool \<Rightarrow> bool \<Rightarrow> bool \<Rightarrow> tvnode \<Rightarrow> bool \<Rightarrow> tdata \<Rightarrow> tworld \<Rightarrow> tworld" where
  "enter_main isIE9 production context_isMounted vnode toggleDisplay d s =
     (let el = tv_elm vnode;
          isAppear = (\<not> context_isMounted \<or> \<not> tv_isRootInsert vnode)
      in if isAppear \<and> t_appear d = AppearFalsy then s
         else
          (let startClass = pick_class isAppear (t_appearClass d) (t_enterClass d);
               activeClass = pick_class isAppear (t_appearActiveClass d) (t_enterActiveClass d);
               toClass = pick_class isAppear (t_appearToClass d) (t_enterToClass d);
               beforeEnterHook = (if isAppear
                  then or_hook (named H_beforeAppear (t_beforeAppear d)) (named H_beforeEnter (t_beforeEnter d))
                  else named H_beforeEnter (t_beforeEnter d));
               enterFn = (if isAppear
                  then (case t_appear d of AppearFunction f \<Rightarrow> Some f | _ \<Rightarrow> t_enter d)
                  else t_enter d);
               enterHook = (if isAppear
                  then (case t_appear d of AppearFunction f \<Rightarrow> Some H_appear
                        | _ \<Rightarrow> named H_enter (t_enter d))
                  else named H_enter (t_enter d));
               afterEnterHook = (if isAppear
                  then or_hook (named H_afterAppear (t_afterAppear d)) (named H_afterEnter (t_afterEnter d))
                  else named H_afterEnter (t_afterEnter d));
               enterCancelledHook = (if isAppear
                  then or_hook (named H_appearCancelled (t_appearCancelled d))
                               (named H_enterCancelled (t_enterCancelled d))
                  else named H_enterCancelled (t_enterCancelled d));
               explicitEnterDuration = (case t_duration d of DurObject e l \<Rightarrow> e | DurPlain v \<Rightarrow> v);
               s1 = (if \<not> production \<and> explicitEnterDuration \<noteq> DUndefined
                     then emit (checkDuration explicitEnterDuration ''enter'') s else s);
               expectsCSS = (t_css d \<noteq> Some False \<and> \<not> isIE9);
               userWantsControl = getHookArgumentsLength enterFn;
               cb = t_next s1;
               s2 = alloc_enter_cb \<lparr>ee_el = el, ee_expectsCSS = expectsCSS,
                       ee_startClass = startClass, ee_activeClass = activeClass,
                       ee_toClass = toClass, ee_enterCancelledHook = enterCancelledHook,
                       ee_afterEnterHook = afterEnterHook\<rparr> s1;
               s3 = emit
                     ((if \<not> tv_show vnode
                       then [MergeInsertHook \<lparr>ic_el = el, ic_key = tv_key vnode, ic_tag = tv_tag vnode,
                                               ic_enterHook = enterHook, ic_cb = cb\<rparr>]
                       else []) @
                      hook_call BeforeEnterHook beforeEnterHook el @
                      (if expectsCSS
                       then [AddTransitionClass el startClass, AddTransitionClass el activeClass,
                             NextFrameEnter \<lparr>ef_el = el, ef_cb = cb, ef_startClass = startClass,
                                ef_toClass = toClass, ef_userWantsControl = userWantsControl,
                                ef_duration = explicitEnterDuration\<rparr>]
                       else []) @
                      (if tv_show vnode
                       then (if toggleDisplay then [ToggleDisplay] else []) @
                            hook_call EnterHook enterHook el
                       else [])) s2
           in if \<not> expectsCSS \<and> \<not> userWantsControl then invoke_cb cb s3 else s3))"

definition enter_rest :: "bool \<Rightarrow> bool \<Rightarrow> bool \<Rightarrow> tvnode \<Rightarrow> bool \<Rightarrow> tworld \<Rightarrow> tworld" where
  "enter_rest isIE9 production context_isMounted vnode toggleDisplay s1 =
     (let el = tv_elm vnode
      in case tv_transition vnode of
           None \<Rightarrow> s1
         | Some d \<Rightarrow>
             if e_enterCb (t_els s1 el) \<noteq> None \<or> e_nodeType (t_els s1 el) \<noteq> 1 then s1
             else enter_main isIE9 production context_isMounted vnode toggleDisplay d s1)"

definition enter :: "bool \<Rightarrow> bool \<Rightarrow> bool \<Rightarrow> tvnode \<Rightarrow> bool \<Rightarrow> tworld \<Rightarrow> tworld" where
  "enter isIE9 production context_isMounted vnode toggleDisplay s =
     enter_rest isIE9 production context_isMounted vnode toggleDisplay
       (cancel_pending_leave (tv_elm vnode) s)"

text \<open>\<open>performLeave\<close>, the rest of \<open>leave\<close>, and \<open>leave\<close>.\<close>

definition performLeave :: "leave_closure \<Rightarrow> tworld \<Rightarrow> tworld" where
  "performLeave c s =
     (let vnode = lc_vnode c; el = tv_elm vnode; cb = lc_cb c
      in if cb_cancelled (t_cbs s cb) then s
         else
          (let s1 = (case e_parentNode (t_els s el) of
                       Some p \<Rightarrow>
                         if \<not> tv_show vnode
                         then s\<lparr>t_pending := (t_pending s)
                                 (p := Some ((case t_pending s p of Some tbl \<Rightarrow> tbl
                                              | None \<Rightarrow> (\<lambda>_. None))(tv_key vnode := Some vnode)))\<rparr>
                         else s
                     | None \<Rightarrow> s);
               s2 = emit
                     (hook_call BeforeLeaveHook (lc_beforeLeave c) el @
                      (if lc_expectsCSS c
                       then [AddTransitionClass el (lc_leaveClass c),
                             AddTransitionClass el (lc_leaveActiveClass c),
                             NextFrameLeave \<lparr>lf_el = el, lf_cb = cb, lf_leaveClass = lc_leaveClass c,
                                lf_leaveToClass = lc_leaveToClass c,
                                lf_userWantsControl = lc_userWantsControl c,
                                lf_duration = lc_duration c\<rparr>]
                       else []) @
                      hook_call LeaveHook (lc_leave c) el) s1
           in if \<not> lc_expectsCSS c \<and> \<not> lc_userWantsControl c then invoke_cb cb s2 else s2))"

definition leave_main :: "bool \<Rightarrow> bool \<Rightarrow> tvnode \<Rightarrow> tdata \<Rightarrow> tworld \<Rightarrow> tworld" where
  "leave_main isIE9 production vnode d s =
     (let el = tv_elm vnode;
          expectsCSS = (t_css d \<noteq> Some False \<and> \<not> isIE9);
          userWantsControl = getHookArgumentsLength (t_leave d);
          explicitLeaveDuration = (case t_duration d of DurObject e l \<Rightarrow> l | DurPlain v \<Rightarrow> v);
          s1 = (if \<not> production \<and> explicitLeaveDuration \<noteq> DUndefined
                then emit (checkDuration explicitLeaveDuration ''leave'') s else s);
          cb = t_next s1;
          s2 = alloc_leave_cb \<lparr>le_el = el, le_key = tv_key vnode,
                  le_expectsCSS = expectsCSS, le_leaveClass = t_leaveClass d,
                  le_leaveToClass = t_leaveToClass d,
                  le_leaveActiveClass = t_leaveActiveClass d,
                  le_leaveCancelled = named H_leaveCancelled (t_leaveCancelled d),
                  le_afterLeave = named H_afterLeave (t_afterLeave d)\<rparr> s1;
          c = \<lparr>lc_vnode = vnode, lc_cb = cb, lc_expectsCSS = expectsCSS,
               lc_userWantsControl = userWantsControl, lc_leaveClass = t_leaveClass d,
               lc_leaveToClass = t_leaveToClass d, lc_leaveActiveClass = t_leaveActiveClass d,
               lc_beforeLeave = named H_beforeLeave (t_beforeLeave d),
               lc_leave = named H_leave (t_leave d), lc_duration = explicitLeaveDuration\<rparr>
      in if t_delayLeave d \<noteq> None then emit [DelayLeaveCall c] s2 else performLeave c s2)"

definition leave_rest :: "bool \<Rightarrow> bool \<Rightarrow> tvnode \<Rightarrow> tworld \<Rightarrow> tworld" where
  "leave_rest isIE9 production vnode s1 =
     (let el = tv_elm vnode
      in case tv_transition vnode of
           None \<Rightarrow> emit [Rm el] s1
         | Some d \<Rightarrow>
             if e_nodeType (t_els s1 el) \<noteq> 1 then emit [Rm el] s1
             else if e_leaveCb (t_els s1 el) \<noteq> None then s1
             else leave_main isIE9 production vnode d s1)"

definition leave :: "bool \<Rightarrow> bool \<Rightarrow> tvnode \<Rightarrow> tworld \<Rightarrow> tworld" where
  "leave isIE9 production vnode s =
     leave_rest isIE9 production vnode (cancel_pending_enter (tv_elm vnode) s)"

text \<open>The closures of \<open>nextFrame\<close> and the merged insert hook, when they run.\<close>

definition enter_next_frame :: "enter_frame \<Rightarrow> tworld \<Rightarrow> tworld" where
  "enter_next_frame f s =
     emit (RemoveTransitionClass (ef_el f) (ef_startClass f) #
           (if \<not> cb_cancelled (t_cbs s (ef_cb f))
            then AddTransitionClass (ef_el f) (ef_toClass f) #
                 (if \<not> ef_userWantsControl f
                  then (if isValidDuration (ef_duration f)
                        then [SetTimeout (ef_cb f) (duration_ms (ef_duration f))]
                        else [WhenTransitionEnds (ef_el f) (ef_cb f)])
                  else [])
            else [])) s"

definition leave_next_frame :: "leave_frame \<Rightarrow> tworld \<Rightarrow> tworld" where
  "leave_next_frame f s =
     emit (RemoveTransitionClass (lf_el f) (lf_leaveClass f) #
           (if \<not> cb_cancelled (t_cbs s (lf_cb f))
            then AddTransitionClass (lf_el f) (lf_leaveToClass f) #
                 (if \<not> lf_userWantsControl f
                  then (if isValidDuration (lf_duration f)
                        then [SetTimeout (lf_cb f) (duration_ms (lf_duration f))]
                        else [WhenTransitionEnds (lf_el f) (lf_cb f)])
                  else [])
            else [])) s"

definition enter_insert_hook :: "insert_closure \<Rightarrow> tworld \<Rightarrow> tworld" where
  "enter_insert_hook c s =
     (let pendingNode =
            (case e_parentNode (t_els s (ic_el c)) of
               None \<Rightarrow> None
             | Some p \<Rightarrow> (case t_pending s p of None \<Rightarrow> None | Some tbl \<Rightarrow> tbl (ic_key c)));
          s1 = (case pendingNode of
                  Some pn \<Rightarrow>
                    (case e_leaveCb (t_els s (tv_elm pn)) of
                       Some r \<Rightarrow> if tv_tag pn = ic_tag c then invoke_cb r s else s
                     | None \<Rightarrow> s)
                | None \<Rightarrow> s)
      in emit (hook_call EnterHook (ic_enterHook c) (ic_el c)) s1)"

text \<open>
  What can happen to the elements: \<open>enter\<close>, \<open>leave\<close>, a call of a callback that exists (by
  a timer, a transition end event, a hook, transition-group), and a run of one of the
  closures.
\<close>

datatype tevent =
    Enter bool tvnode bool
  | Leave tvnode
  | CallCb nat
  | RunEnterFrame enter_frame
  | RunLeaveFrame leave_frame
  | RunInsertHook insert_closure
  | RunPerformLeave leave_closure

definition tstep :: "bool \<Rightarrow> bool \<Rightarrow> tevent \<Rightarrow> tworld \<Rightarrow> tworld" where
  "tstep isIE9 production ev s =
     (case ev of
        Enter context_isMounted vnode toggleDisplay \<Rightarrow>
          enter isIE9 production context_isMounted vnode toggleDisplay s
      | Leave vnode \<Rightarrow> leave isIE9 production vnode s
      | CallCb r \<Rightarrow> if r < t_next s then invoke_cb r s else s
      | RunEnterFrame f \<Rightarrow> enter_next_frame f s
      | RunLeaveFrame f \<Rightarrow> leave_next_frame f s
      | RunInsertHook c \<Rightarrow> enter_insert_hook c s
      | RunPerformLeave c \<Rightarrow> performLeave c s)"

definition trun :: "bool \<Rightarrow> bool \<Rightarrow> tevent list \<Rightarrow> tworld \<Rightarrow> tworld" where
  "trun isIE9 production evs s = fold (tstep isIE9 production) evs s"

text \<open>
  In a well-formed state a callback slot holds a callback that exists, was not called
  yet, and is the callback of this kind for this element; and an element has at most
  one of the two pending.
\<close>

definition enter_ok :: "tworld \<Rightarrow> nat \<Rightarrow> bool" where
  "enter_ok s el = (\<forall>r. e_enterCb (t_els s el) = Some r \<longrightarrow>
       r < t_next s \<and> \<not> cb_called (t_cbs s r) \<and>
       (\<exists>env. cb_body (t_cbs s r) = EnterBody env \<and> ee_el env = el))"

definition leave_ok :: "tworld \<Rightarrow> nat \<Rightarrow> bool" where
  "leave_ok s el = (\<forall>r. e_leaveCb (t_els s el) = Some r \<longrightarrow>
       r < t_next s \<and> \<not> cb_called (t_cbs s r) \<and>
       (\<exists>env. cb_body (t_cbs s r) = LeaveBody env \<and> le_el env = el))"

definition one_pending :: "tworld \<Rightarrow> nat \<Rightarrow> bool" where
  "one_pending s el = (e_enterCb (t_els s el) = None \<or> e_leaveCb (t_els s el) = None)"

definition tinv :: "tworld \<Rightarrow> bool" where
  "tinv s = (\<forall>el. enter_ok s el \<and> leave_ok s el \<and> one_pending s el)"

text \<open>
  The enter hooks and the leave hooks (with \<open>rm\<close>) among the effects, and a state whose
  effects extend those of another by effects of one kind only.
\<close>

definition enter_role :: "role \<Rightarrow> bool" where
  "enter_role r = (r = BeforeEnterHook \<or> r = EnterHook \<or> r = AfterEnterHook \<or> r = EnterCancelledHook)"

definition no_enter_hook :: "effect \<Rightarrow> bool" where
  "no_enter_hook e = (case e of HookCall r _ _ \<Rightarrow> \<not> enter_role r | _ \<Rightarrow> True)"

definition no_leave_hook :: "effect \<Rightarrow> bool" where
  "no_leave_hook e = (case e of HookCall r _ _ \<Rightarrow> enter_role r | Rm _ \<Rightarrow> False | _ \<Rightarrow> True)"

definition ext :: "(effect \<Rightarrow> bool) \<Rightarrow> tworld \<Rightarrow> tworld \<Rightarrow> bool" where
  "ext P s s' = (\<exists>rest. t_effects s' = t_effects s @ rest \<and> list_all P rest)"

definition pending_enter :: "tworld \<Rightarrow> nat \<Rightarrow> nat \<Rightarrow> enter_env \<Rightarrow> bool" where
  "pending_enter s el r env =
     (e_enterCb (t_els s el) = Some r \<and> cb_body (t_cbs s r) = EnterBody env)"

definition pending_leave :: "tworld \<Rightarrow> nat \<Rightarrow> nat \<Rightarrow> leave_env \<Rightarrow> bool" where
  "pending_leave s el r env =
     (e_leaveCb (t_els s el) = Some r \<and> cb_body (t_cbs s r) = LeaveBody env)"

text \<open>
  An element with no pending callback; a CSS transition with hooks for both outcomes of
  either direction; and the state after \<open>enter\<close> on that element in a mounted context.
\<close>

definition tdata0 :: tdata where
  "tdata0 = \<lparr>t_css = None, t_enterClass = Some ''v-enter'', t_enterToClass = Some ''v-enter-to'',
     t_enterActiveClass = Some ''v-enter-active'', t_appearClass = None, t_appearToClass = None,
     t_appearActiveClass = None, t_leaveClass = Some ''v-leave'',
     t_leaveToClass = Some ''v-leave-to'', t_leaveActiveClass = Some ''v-leave-active'',
     t_beforeEnter = None, t_enter = None, t_afterEnter = Some (PlainFn 1),
     t_enterCancelled = Some (PlainFn 1), t_beforeAppear = None, t_appear = AppearFalsy,
     t_afterAppear = None, t_appearCancelled = None, t_beforeLeave = None, t_leave = None,
     t_afterLeave = Some (PlainFn 1), t_leaveCancelled = Some (PlainFn 1), t_delayLeave = None,
     t_duration = DurPlain DUndefined\<rparr>"

definition tvnode1 :: tvnode where
  "tvnode1 = \<lparr>tv_elm = 1, tv_transition = Some tdata0, tv_show = False, tv_key = ''k'',
     tv_tag = Some ''div'', tv_isRootInsert = True\<rparr>"

definition tworld0 :: tworld where
  "tworld0 = \<lparr>t_els = (\<lambda>_. \<lparr>e_leaveCb = None, e_enterCb = None, e_nodeType = 1, e_parentNode = None\<rparr>),
     t_cbs = (\<lambda>_. \<lparr>cb_called = True, cb_cancelled = False,
                    cb_body = EnterBody \<lparr>ee_el = 0, ee_expectsCSS = False, ee_startClass = None,
                      ee_activeClass = None, ee_toClass = None, ee_enterCancelledHook = None,
                      ee_afterEnterHook = None\<rparr>\<rparr>),
     t_next = 0, t_pending = (\<lambda>_. None), t_effects = []\<rparr>"

definition enter_env1 :: enter_env where
  "enter_env1 = \<lparr>ee_el = 1, ee_expectsCSS = True, ee_startClass = Some ''v-enter'',
     ee_activeClass = Some ''v-enter-active'', ee_toClass = Some ''v-enter-to'',
     ee_enterCancelledHook = Some H_enterCancelled, ee_afterEnterHook = Some H_afterEnter\<rparr>"

definition tworld1 :: tworld where
  "tworld1 = enter False False True tvnode1 False tworld0"

subsection \<open>Reconciliation invariants of a watcher\<close>

text \<open>
  \<open>subscribed s w\<close>: between evaluations, watcher \<open>w\<close> is subscribed exactly once to
  each Dep of its \<open>deps\<close>, \<open>depIds\<close> holds their ids, and the pending-next collections
  are empty. \<open>collected s w nl\<close> is the same during an evaluation that has collected
  \<open>nl\<close> so far. \<open>touched\<close> and \<open>get_result\<close> describe what an evaluation reads and what
  \<open>get()\<close> returns for it.
\<close>

definition collected :: "world \<Rightarrow> nat \<Rightarrow> nat list \<Rightarrow> bool" where
  "collected s w nl =
     (distinct nl \<and> distinct (w_deps (watchers s w)) \<and>
      w_depIds (watchers s w) = SimpleSet (w_deps (watchers s w)) \<and>
      w_newDeps (watchers s w) = nl \<and> w_newDepIds (watchers s w) = SimpleSet nl \<and>
      (\<forall>d. count_list (subs s d) w =
            (if d \<in> set (w_deps (watchers s w)) \<or> d \<in> set nl then 1 else 0)))"

definition subscribed :: "world \<Rightarrow> nat \<Rightarrow> bool" where
  "subscribed s w =
     (distinct (w_deps (watchers s w)) \<and>
      w_depIds (watchers s w) = SimpleSet (w_deps (watchers s w)) \<and>
      w_newDeps (watchers s w) = [] \<and> w_newDepIds (watchers s w) = SimpleSet [] \<and>
      (\<forall>d. count_list (subs s d) w = (if d \<in> set (w_deps (watchers s w)) then 1 else 0)))"

definition getter_touches :: "getter \<Rightarrow> evaluation \<Rightarrow> nat list" where
  "getter_touches g ev = (case g of Noop \<Rightarrow> [] | _ \<Rightarrow> ev_touches ev)"

definition getter_outcome :: "getter \<Rightarrow> evaluation \<Rightarrow> exn + jsval" where
  "getter_outcome g ev = (case g of Noop \<Rightarrow> Inr VUndefined | _ \<Rightarrow> ev_outcome ev)"

definition traversed :: "jsval \<Rightarrow> evaluation \<Rightarrow> nat list" where
  "traversed v ev = (case v of VObject _ \<Rightarrow> ev_deep_touches ev | _ \<Rightarrow> [])"

definition got_value :: "exn + jsval \<Rightarrow> jsval" where
  "got_value r = (case r of Inr v \<Rightarrow> v | Inl _ \<Rightarrow> VUndefined)"

definition touched :: "watcher \<Rightarrow> evaluation \<Rightarrow> nat list" where
  "touched W ev =
     getter_touches (w_getter W) ev @
     (if w_deep W then traversed (got_value (getter_outcome (w_getter W) ev)) ev else [])"

definition get_result :: "watcher \<Rightarrow> evaluation \<Rightarrow> exn + jsval" where
  "get_result W ev =
     (case getter_outcome (w_getter W) ev of
        Inr v \<Rightarrow> Inr v
      | Inl e \<Rightarrow> if w_user W then Inr VUndefined else Inl e)"

definition same_but_new :: "world \<Rightarrow> world \<Rightarrow> nat \<Rightarrow> nat list \<Rightarrow> bool" where
  "same_but_new s s' w nl =
     (target s' = target s \<and> targetStack s' = targetStack s \<and>
      watchers s' w = (watchers s w)\<lparr>w_newDeps := nl, w_newDepIds := SimpleSet nl\<rparr>)"

section \<open>Properties of the observer\<close>

lemmas observer_defs = new_Watcher_def Let_def get_def call_getter_def get_finally_def
  traverse_def cleanupDeps_def pushTarget_def popTarget_def depend_def addDep_def addSub_def
  ev_read_def world0_def watcher0_def vm0_def stack_top_def

lemma stack_top_snoc: "stack_top (st @ [t]) = t"
  by (simp add: stack_top_def)

lemma world1_state:
  "subs world1 0 = [1] \<and> w_deps (watchers world1 1) = [0] \<and>
   w_depIds (watchers world1 1) = SimpleSet [0] \<and>
   w_newDepIds (watchers world1 1) = PlainObject \<and> w_active (watchers world1 1)"
  by (simp add: world1_def observer_defs)

subsection \<open>cleanupDeps and get\<close>

text \<open>
  C1. After \<open>get()\<close> the pending-next collections should be an empty id-set and an empty
  list, reusable by the next evaluation. In the code \<open>newDepIds\<close> becomes \<open>new set([])\<close>,
  and \<open>set\<close> is not the \<open>Set\<close> class: on the object it yields, the next evaluation fails.
  A watcher is constructed with an evaluator that reads the property behind Dep 0. Its
  second \<open>get()\<close> raises a TypeError when the evaluator reads that property again (in
  \<open>addDep\<close>, at \<open>this.newDepIds.has(id)\<close>), and also when it reads nothing (in
  \<open>cleanupDeps\<close>, at \<open>this.newDepIds.has(dep.id)\<close>), so the stale subscription to Dep 0
  is not removed.
\<close>

theorem get_after_cleanupDeps_raises:
  "fst (get PlainObject 1 (ev_read [0] (VPrim 1)) world1) = Inl TypeError \<and>
   fst (get PlainObject 1 (ev_read [] (VPrim 1)) world1) = Inl TypeError \<and>
   subs (snd (get PlainObject 1 (ev_read [] (VPrim 1)) world1)) 0 = [1]"
  by (simp add: world1_def observer_defs)

text \<open>
  With an empty id-set in the place of the object yielded by \<open>new set([])\<close>, \<open>get()\<close>
  reconciles: from a state in which the watcher is subscribed to its \<open>deps\<close>, it returns
  the evaluator's result (\<open>undefined\<close> for a user watcher whose evaluator throws), the
  watcher ends subscribed to exactly the Deps the evaluation touched, the pending-next
  collections are empty again, and the target stack is as before.
\<close>

lemma addDep_collected:
  assumes "collected s w nl"
  shows "\<exists>s'. addDep w d s = (None, s') \<and>
           collected s' w (if d \<in> set nl then nl else nl @ [d]) \<and>
           same_but_new s s' w (if d \<in> set nl then nl else nl @ [d])"
proof (cases "d \<in> set nl")
  case True
  then show ?thesis using assms by (simp add: addDep_def Let_def collected_def same_but_new_def)
next
  case False
  show ?thesis
  proof (cases "d \<in> set (w_deps (watchers s w))")
    case True
    then show ?thesis using assms False
      by (simp add: addDep_def Let_def collected_def same_but_new_def)
  next
    case nd: False
    then show ?thesis using assms False
      by (auto simp: addDep_def Let_def collected_def addSub_def same_but_new_def)
  qed
qed

lemma same_but_new_trans:
  "same_but_new s s1 w nl1 \<Longrightarrow> same_but_new s1 s2 w nl2 \<Longrightarrow> same_but_new s s2 w nl2"
  by (simp add: same_but_new_def)

lemma touch_all_collected:
  assumes "collected s w nl" and "target s = Ref w"
  shows "\<exists>s' nl'. touch_all ds s = (None, s') \<and> collected s' w nl' \<and>
           set nl' = set nl \<union> set ds \<and> same_but_new s s' w nl'"
  using assms
proof (induction ds arbitrary: s nl)
  case Nil
  then show ?case by (auto simp: same_but_new_def collected_def)
next
  case (Cons d ds)
  from addDep_collected[OF Cons.prems(1), of d]
  obtain s1 where a: "addDep w d s = (None, s1)"
    and c: "collected s1 w (if d \<in> set nl then nl else nl @ [d])"
    and sb: "same_but_new s s1 w (if d \<in> set nl then nl else nl @ [d])"
    by blast
  have tg1: "target s1 = Ref w" using sb Cons.prems(2) by (simp add: same_but_new_def)
  from Cons.IH[OF c tg1]
  obtain s' nl' where r: "touch_all ds s1 = (None, s')" and c': "collected s' w nl'"
    and st: "set nl' = set (if d \<in> set nl then nl else nl @ [d]) \<union> set ds"
    and sb': "same_but_new s1 s' w nl'"
    by blast
  have "touch_all (d # ds) s = (None, s')"
    using a r Cons.prems(2) by (simp add: depend_def)
  moreover have "set nl' = set nl \<union> set (d # ds)" using st by auto
  ultimately show ?case using c' same_but_new_trans[OF sb sb'] by blast
qed

lemma cleanup_loop_counts:
  assumes "distinct ds" and "n \<le> length ds"
    and "\<forall>d. count_list (subs s d) w = (if d \<in> set nl \<or> d \<in> set (take n ds) then 1 else 0)"
  shows "\<exists>s'. cleanup_loop n ds (SimpleSet nl) w s = (None, s') \<and>
           (\<forall>d. count_list (subs s' d) w = (if d \<in> set nl then 1 else 0)) \<and>
           watchers s' = watchers s \<and> target s' = target s \<and> targetStack s' = targetStack s"
  using assms(2,3)
proof (induction n arbitrary: s)
  case 0
  then show ?case by simp
next
  case (Suc i)
  then have lt: "i < length ds" by simp
  have tk: "take (Suc i) ds = take i ds @ [ds ! i]" using lt by (simp add: take_Suc_conv_app_nth)
  have "distinct (take (Suc i) ds)" using assms(1) by (rule distinct_take)
  then have nin: "ds ! i \<notin> set (take i ds)" by (simp add: tk)
  show ?case
  proof (cases "ds ! i \<in> set nl")
    case True
    have "\<forall>d. count_list (subs s d) w = (if d \<in> set nl \<or> d \<in> set (take i ds) then 1 else 0)"
      using Suc.prems(2) True by (auto simp: tk)
    from Suc.IH[OF _ this] lt show ?thesis using True by simp
  next
    case False
    let ?s1 = "removeSub (ds ! i) w s"
    have "\<forall>d. count_list (subs ?s1 d) w = (if d \<in> set nl \<or> d \<in> set (take i ds) then 1 else 0)"
      using Suc.prems(2) False nin by (auto simp: tk removeSub_def remove_item_def)
    from Suc.IH[OF _ this] lt show ?thesis using False by (simp add: removeSub_def)
  qed
qed

lemma cleanupDeps_collected:
  assumes "collected s w nl"
  shows "\<exists>s'. cleanupDeps (SimpleSet []) w s = (None, s') \<and> subscribed s' w \<and>
           w_deps (watchers s' w) = nl \<and> target s' = target s \<and> targetStack s' = targetStack s"
proof -
  let ?W = "watchers s w"
  from assms have d: "distinct (w_deps ?W)" and ni: "w_newDepIds ?W = SimpleSet nl"
    and nd: "w_newDeps ?W = nl" and dn: "distinct nl"
    and cnt: "\<forall>d. count_list (subs s d) w =
            (if d \<in> set nl \<or> d \<in> set (take (length (w_deps ?W)) (w_deps ?W)) then 1 else 0)"
    by (auto simp: collected_def)
  from cleanup_loop_counts[OF d _ cnt]
  obtain s1 where l: "cleanup_loop (length (w_deps ?W)) (w_deps ?W) (SimpleSet nl) w s = (None, s1)"
    and c1: "\<forall>d. count_list (subs s1 d) w = (if d \<in> set nl then 1 else 0)"
    and w1: "watchers s1 = watchers s" and t1: "target s1 = target s"
    and ts1: "targetStack s1 = targetStack s"
    by auto
  show ?thesis
    using l c1 w1 t1 ts1 ni nd dn
    by (simp add: cleanupDeps_def Let_def subscribed_def)
qed

lemma same_but_new_refl: "collected s w nl \<Longrightarrow> same_but_new s s w nl"
  by (simp add: same_but_new_def collected_def)

lemma call_getter_collected:
  assumes "collected s w []" and "target s = Ref w"
  shows "\<exists>s' nl. call_getter g ev s = (getter_outcome g ev, s') \<and>
           collected s' w nl \<and> set nl = set (getter_touches g ev) \<and>
           same_but_new s s' w nl"
proof (cases "g = Noop")
  case True
  then show ?thesis using assms same_but_new_refl[OF assms(1)]
    by (auto simp: call_getter_def getter_outcome_def getter_touches_def)
next
  case False
  from touch_all_collected[OF assms, of "ev_touches ev"]
  obtain s' nl where "touch_all (ev_touches ev) s = (None, s')" "collected s' w nl"
    "set nl = set (ev_touches ev)" "same_but_new s s' w nl" by auto
  then show ?thesis using False
    by (cases g) (auto simp: call_getter_def getter_outcome_def getter_touches_def)
qed

lemma traverse_collected:
  assumes "collected s w nl" and "target s = Ref w"
  shows "\<exists>s' nl'. traverse v ev s = (None, s') \<and> collected s' w nl' \<and>
           set nl' = set nl \<union> set (traversed v ev) \<and> same_but_new s s' w nl'"
proof (cases v)
  case (VObject x)
  from touch_all_collected[OF assms, of "ev_deep_touches ev"]
  show ?thesis by (simp add: traverse_def traversed_def VObject)
qed (use assms same_but_new_refl[OF assms(1)] in \<open>auto simp: traverse_def traversed_def\<close>)

lemma popTarget_collected:
  "collected s w nl \<Longrightarrow> collected (popTarget s) w nl \<and>
     targetStack (popTarget s) = butlast (targetStack s)"
  by (simp add: collected_def popTarget_def Let_def)

lemma get_finally_collected:
  assumes c: "collected s w nl" and t: "target s = Ref w"
  shows "\<exists>s'. get_finally (SimpleSet []) w v ev s = (None, s') \<and> subscribed s' w \<and>
           set (w_deps (watchers s' w)) =
             set nl \<union> set (if w_deep (watchers s w) then traversed v ev else []) \<and>
           targetStack s' = butlast (targetStack s)"
proof (cases "w_deep (watchers s w)")
  case True
  from traverse_collected[OF c t, of v ev]
  obtain s1 nl1 where tr: "traverse v ev s = (None, s1)" and c1: "collected s1 w nl1"
    and st: "set nl1 = set nl \<union> set (traversed v ev)"
    and sb: "same_but_new s s1 w nl1" by blast
  from popTarget_collected[OF c1] have c2: "collected (popTarget s1) w nl1"
    and ts: "targetStack (popTarget s1) = butlast (targetStack s1)" by simp_all
  from cleanupDeps_collected[OF c2]
  obtain s' where cl: "cleanupDeps (SimpleSet []) w (popTarget s1) = (None, s')"
    and sub: "subscribed s' w" and dp: "w_deps (watchers s' w) = nl1"
    and ts': "targetStack s' = targetStack (popTarget s1)" by blast
  have "targetStack s1 = targetStack s" using sb by (simp add: same_but_new_def)
  then show ?thesis using True tr cl sub dp st ts ts' by (simp add: get_finally_def)
next
  case False
  from popTarget_collected[OF c] have c2: "collected (popTarget s) w nl"
    and ts: "targetStack (popTarget s) = butlast (targetStack s)" by simp_all
  from cleanupDeps_collected[OF c2]
  obtain s' where cl: "cleanupDeps (SimpleSet []) w (popTarget s) = (None, s')"
    and sub: "subscribed s' w" and dp: "w_deps (watchers s' w) = nl"
    and ts': "targetStack s' = targetStack (popTarget s)" by blast
  then show ?thesis using False ts by (simp add: get_finally_def)
qed

lemma handleError_collected:
  "collected s w nl \<Longrightarrow> collected (handleError e s) w nl \<and> target (handleError e s) = target s \<and>
     targetStack (handleError e s) = targetStack s \<and> watchers (handleError e s) = watchers s"
  by (simp add: collected_def handleError_def)

lemma get_reconciles:
  assumes sub: "subscribed s w"
  shows "\<exists>s'. get (SimpleSet []) w ev s = (get_result (watchers s w) ev, s') \<and>
           subscribed s' w \<and>
           set (w_deps (watchers s' w)) = set (touched (watchers s w) ev) \<and>
           w_newDeps (watchers s' w) = [] \<and> w_newDepIds (watchers s' w) = SimpleSet [] \<and>
           targetStack s' = targetStack s"
proof -
  let ?W = "watchers s w"
  let ?s1 = "pushTarget (Ref w) s"
  have c1: "collected ?s1 w []" using sub by (simp add: subscribed_def collected_def pushTarget_def)
  have t1: "target ?s1 = Ref w" by (simp add: pushTarget_def)
  have w1: "watchers ?s1 = watchers s" by (simp add: pushTarget_def)
  have st1: "butlast (targetStack ?s1) = targetStack s" by (simp add: pushTarget_def)
  let ?r = "getter_outcome (w_getter ?W) ev"
  from call_getter_collected[OF c1 t1, of "w_getter ?W" ev]
  obtain s2 nl where cg: "call_getter (w_getter ?W) ev ?s1 = (?r, s2)"
    and c2: "collected s2 w nl"
    and n2: "set nl = set (getter_touches (w_getter ?W) ev)"
    and sb2: "same_but_new ?s1 s2 w nl" by blast
  have t2: "target s2 = Ref w" and ts2: "targetStack s2 = targetStack ?s1"
    and deep2: "w_deep (watchers s2 w) = w_deep ?W"
    using sb2 t1 w1 by (simp_all add: same_but_new_def)
  show ?thesis
  proof (cases ?r)
    case (Inr x)
    from get_finally_collected[OF c2 t2, of x ev]
    obtain s' where gf: "get_finally (SimpleSet []) w x ev s2 = (None, s')"
      and sub': "subscribed s' w"
      and dp: "set (w_deps (watchers s' w)) =
               set nl \<union> set (if w_deep (watchers s2 w) then traversed x ev else [])"
      and ts': "targetStack s' = butlast (targetStack s2)" by blast
    have g: "get (SimpleSet []) w ev s = (Inr x, s')"
      using cg gf Inr by (simp add: get_def Let_def w1)
    have res: "get_result ?W ev = Inr x" using Inr by (simp add: get_result_def)
    have tch: "set (touched ?W ev) =
               set nl \<union> set (if w_deep ?W then traversed x ev else [])"
      using Inr n2 by (simp add: touched_def got_value_def)
    have nd: "w_newDeps (watchers s' w) = [] \<and> w_newDepIds (watchers s' w) = SimpleSet []"
      using sub' by (simp add: subscribed_def)
    show ?thesis using g res sub' dp tch nd ts' ts2 st1 deep2 by simp
  next
    case (Inl e)
    let ?s3 = "if w_user ?W then handleError e s2 else s2"
    have c3: "collected ?s3 w nl" and t3: "target ?s3 = Ref w"
      and ts3: "targetStack ?s3 = targetStack ?s1"
      and deep3: "w_deep (watchers ?s3 w) = w_deep ?W"
      using c2 t2 ts2 deep2 handleError_collected[OF c2] by auto
    from get_finally_collected[OF c3 t3, of VUndefined ev]
    obtain s' where gf: "get_finally (SimpleSet []) w VUndefined ev ?s3 = (None, s')"
      and sub': "subscribed s' w"
      and dp: "set (w_deps (watchers s' w)) =
               set nl \<union> set (if w_deep (watchers ?s3 w) then traversed VUndefined ev else [])"
      and ts': "targetStack s' = butlast (targetStack ?s3)" by blast
    have g: "get (SimpleSet []) w ev s = (get_result ?W ev, s')"
      using cg gf Inl by (auto simp: get_def Let_def w1 get_result_def)
    have tch: "set (touched ?W ev) =
               set nl \<union> set (if w_deep ?W then traversed VUndefined ev else [])"
      using Inl n2 by (simp add: touched_def got_value_def)
    have nd: "w_newDeps (watchers s' w) = [] \<and> w_newDepIds (watchers s' w) = SimpleSet []"
      using sub' by (simp add: subscribed_def)
    show ?thesis using g sub' dp tch nd ts' ts3 st1 deep3 by simp
  qed
qed

lemma get_reconciles_example:
  "fst (get (SimpleSet []) 1 (ev_read [] (VPrim 1))
          (snd (new_Watcher (\<lambda>_. True) False (SimpleSet []) 0 FnArg None False
                  (ev_read [0] (VPrim 1)) world0))) = Inr (VPrim 1) \<and>
   subs (snd (get (SimpleSet []) 1 (ev_read [] (VPrim 1))
          (snd (new_Watcher (\<lambda>_. True) False (SimpleSet []) 0 FnArg None False
                  (ev_read [0] (VPrim 1)) world0)))) 0 = []"
  by (simp add: observer_defs remove_item_def removeSub_def)

subsection \<open>The constructor\<close>

text \<open>
  C7. Constructing a Watcher with a string for which \<open>parsePath\<close> returns no getter does
  not throw: the constructor returns the new watcher, its getter is the no-op function,
  its value is \<open>undefined\<close>, the no-op evaluation subscribes it to nothing, and outside
  production builds one warning about the path is reported.
\<close>

theorem new_Watcher_unparsable_path:
  "\<not> parsePath p \<Longrightarrow>
   (let r = new_Watcher parsePath production new_set v (StrArg p) opts isRenderWatcher ev s;
        this = Suc (uid s)
    in fst r = Inr this \<and> w_getter (watchers (snd r) this) = Noop \<and>
       w_value (watchers (snd r) this) = VUndefined \<and>
       warnings (snd r) =
         (if production then warnings s else warnings s @ [FailedWatchingPath p]) \<and>
       subs (snd r) = subs s \<and> w_deps (watchers (snd r) this) = [])"
  by (simp add: new_Watcher_def Let_def get_def call_getter_def get_finally_def traverse_def
      cleanupDeps_def pushTarget_def popTarget_def split: option.splits prod.splits)

theorem new_Watcher_unparsable_path_witness:
  "\<not> (\<lambda>_. False) ''a+b'' \<and>
   fst (new_Watcher (\<lambda>_. False) False PlainObject 0 (StrArg ''a+b'') None False
          (ev_read [0] (VPrim 1)) world0) = Inr 1 \<and>
   warnings (snd (new_Watcher (\<lambda>_. False) False PlainObject 0 (StrArg ''a+b'') None False
          (ev_read [0] (VPrim 1)) world0)) = [FailedWatchingPath ''a+b'']"
  using new_Watcher_unparsable_path [of "\<lambda>_. False" "''a+b''" False PlainObject 0 None False
      "ev_read [0] (VPrim 1)" world0]
  by (simp add: Let_def world0_def)

subsection \<open>teardown\<close>

lemma subs_removeSub:
  "subs (removeSub d' w s) d = (if d = d' then remove1 w (subs s d) else subs s d)"
  by (simp add: removeSub_def remove_item_def)

lemma teardown_loop_subs:
  "n \<le> length ds \<Longrightarrow>
   subs (teardown_loop n ds w s) d = ((remove1 w) ^^ count_list (take n ds) d) (subs s d)"
proof (induction n arbitrary: s)
  case 0
  then show ?case by simp
next
  case (Suc n)
  then have lt: "n < length ds" by simp
  have t: "take (Suc n) ds = take n ds @ [ds ! n]"
    using lt by (simp add: take_Suc_conv_app_nth)
  from Suc.IH[of "removeSub (ds ! n) w s"] lt
  show ?case by (simp add: t subs_removeSub funpow_swap1)
qed

lemma funpow_remove1_distinct: "distinct l \<Longrightarrow> distinct ((remove1 w ^^ k) l)"
  by (induction k) simp_all

lemma funpow_remove1_absent: "distinct l \<Longrightarrow> 0 < k \<Longrightarrow> w \<notin> set ((remove1 w ^^ k) l)"
proof (induction k)
  case 0
  then show ?case by simp
next
  case (Suc k)
  have "distinct ((remove1 w ^^ k) l)" using Suc.prems(1) by (rule funpow_remove1_distinct)
  then show ?case by simp
qed

lemma teardown_subs:
  "w_active (watchers s w) \<Longrightarrow>
   subs (teardown w s) d = ((remove1 w) ^^ count_list (w_deps (watchers s w)) d) (subs s d)"
  by (simp add: teardown_def Let_def teardown_loop_subs)

text \<open>
  C8. \<open>teardown()\<close> is idempotent: a second call leaves the whole heap (the watcher, every
  subscriber list, the component's watcher list) as the first call left it. The first
  call sets \<open>active\<close> to false, and it removes the watcher from the subscriber list of
  every Dep in \<open>deps\<close> (a list that held the watcher once).
\<close>

theorem teardown_idempotent:
  "teardown w (teardown w s) = teardown w s \<and> \<not> w_active (watchers (teardown w s) w) \<and>
   (w_active (watchers s w) \<and> d \<in> set (w_deps (watchers s w)) \<and> distinct (subs s d)
      \<longrightarrow> w \<notin> set (subs (teardown w s) d))"
proof -
  have a: "teardown w (teardown w s) = teardown w s \<and> \<not> w_active (watchers (teardown w s) w)"
    by (simp add: teardown_def Let_def)
  have b: "w_active (watchers s w) \<and> d \<in> set (w_deps (watchers s w)) \<and> distinct (subs s d)
      \<longrightarrow> w \<notin> set (subs (teardown w s) d)"
  proof (intro impI, elim conjE)
    assume act: "w_active (watchers s w)" and mem: "d \<in> set (w_deps (watchers s w))"
      and dist: "distinct (subs s d)"
    from mem have "0 < count_list (w_deps (watchers s w)) d"
      using count_list_0_iff[of "w_deps (watchers s w)" d] by simp
    with dist show "w \<notin> set (subs (teardown w s) d)"
      by (simp add: teardown_subs[OF act] funpow_remove1_absent)
  qed
  from a b show ?thesis by blast
qed

theorem teardown_idempotent_witness:
  "w_active (watchers world1 1) \<and> 0 \<in> set (w_deps (watchers world1 1)) \<and>
   distinct (subs world1 0) \<and> 1 \<notin> set (subs (teardown 1 world1) 0) \<and>
   teardown 1 (teardown 1 world1) = teardown 1 world1"
  using teardown_idempotent [of 1 world1 0] world1_state by simp

subsection \<open>pushTarget and popTarget\<close>

lemma pushTarget_popTarget_basic:
  "targetStack (popTarget (pushTarget w s)) = targetStack s \<and>
   target (popTarget (pushTarget w s)) = stack_top (targetStack s)"
  by (simp add: popTarget_def pushTarget_def Let_def)

text \<open>
  C9, as the code has it. \<open>pushTarget(w)\<close> followed by \<open>popTarget()\<close> restores the stack,
  and sets \<open>Dep.target\<close> to the entry on top of the restored stack, \<open>undefined\<close> when the
  stack is empty. So the pair restores \<open>Dep.target\<close> (and the whole state) whenever
  \<open>Dep.target\<close> was the top of the stack, as it is inside any evaluation: after a nested
  evaluation the outer watcher is the active target again.
\<close>

theorem pushTarget_popTarget_round_trip:
  "targetStack (popTarget (pushTarget w s)) = targetStack s \<and>
   target (popTarget (pushTarget w s)) = stack_top (targetStack s) \<and>
   (target s = stack_top (targetStack s) \<longrightarrow> popTarget (pushTarget w s) = s) \<and>
   target (popTarget (pushTarget inner (pushTarget outer s))) = outer"
proof -
  have a: "target s = stack_top (targetStack s) \<longrightarrow> popTarget (pushTarget w s) = s"
    by (simp add: popTarget_def pushTarget_def Let_def)
  have "target (popTarget (pushTarget inner (pushTarget outer s))) =
        stack_top (targetStack (pushTarget outer s))"
    using pushTarget_popTarget_basic by blast
  also have "\<dots> = outer"
    by (simp add: pushTarget_def stack_top_snoc)
  finally show ?thesis using a pushTarget_popTarget_basic by blast
qed

theorem pushTarget_popTarget_round_trip_witness:
  "target (pushTarget (Ref 1) world0) = stack_top (targetStack (pushTarget (Ref 1) world0)) \<and>
   popTarget (pushTarget (Ref 2) (pushTarget (Ref 1) world0)) = pushTarget (Ref 1) world0"
  using pushTarget_popTarget_round_trip [of "Ref 2" "pushTarget (Ref 1) world0"]
  by (simp add: pushTarget_def stack_top_def)

text \<open>
  C9, as the claim states it, fails in the state dep.js starts in: \<open>Dep.target\<close> is
  \<open>null\<close> and the stack is empty, and after \<open>pushTarget(w); popTarget()\<close> \<open>Dep.target\<close> is
  \<open>undefined\<close>.
\<close>

theorem pushTarget_popTarget_initial_counterexample:
  "target (dep_module_init world0) = Null \<and>
   target (popTarget (pushTarget (Ref 1) (dep_module_init world0))) = Undefined"
  by (simp add: popTarget_def pushTarget_def Let_def stack_top_def dep_module_init_def world0_def)

subsection \<open>notify\<close>

lemma notify_loop_eq:
  "i + k = length sl \<Longrightarrow>
   notify_loop upd sl i k (called, s) = (called @ drop i sl, fold upd (drop i sl) s)"
proof (induction k arbitrary: i called s)
  case 0
  then show ?case by simp
next
  case (Suc k)
  then have lt: "i < length sl" by simp
  have d: "drop i sl = sl ! i # drop (Suc i) sl"
    using lt by (simp add: Cons_nth_drop_Suc)
  from Suc.prems have "Suc i + k = length sl" by simp
  from Suc.IH[OF this] show ?case by (simp add: d)
qed

lemma notify_eq:
  "notify production config_async upd d s =
     (notify_snapshot production config_async (subs s d),
      fold upd (notify_snapshot production config_async (subs s d)) s)"
  by (simp add: notify_def Let_def notify_loop_eq)

text \<open>
  C4, as the code has it. Whatever \<open>update\<close> does to the subscriber lists, \<open>notify()\<close>
  invokes it on the subscribers the list held when \<open>notify\<close> began. Outside production
  builds with \<open>config.async\<close> off, it does so in ascending watcher-id order; in a
  production build, or with \<open>config.async\<close> on, in insertion order.
\<close>

theorem notify_order:
  "fst (notify production config_async upd d s) =
     (if \<not> production \<and> \<not> config_async then sort (subs s d) else subs s d) \<and>
   (\<not> production \<and> \<not> config_async \<longrightarrow> sorted (fst (notify production config_async upd d s))) \<and>
   set (fst (notify production config_async upd d s)) = set (subs s d)"
  by (simp add: notify_eq notify_snapshot_def)

theorem notify_order_witness:
  "fst (notify False False (\<lambda>w s. removeSub 0 2 s) 0 (world0\<lparr>subs := (\<lambda>_. [3, 1, 2])\<rparr>))
     = [1, 2, 3] \<and>
   fst (notify False True (\<lambda>w s. removeSub 0 2 s) 0 (world0\<lparr>subs := (\<lambda>_. [3, 1, 2])\<rparr>))
     = [3, 1, 2]"
  using notify_order [of False False "\<lambda>w s. removeSub 0 2 s" 0 "world0\<lparr>subs := (\<lambda>_. [3, 1, 2])\<rparr>"]
    notify_order [of False True "\<lambda>w s. removeSub 0 2 s" 0 "world0\<lparr>subs := (\<lambda>_. [3, 1, 2])\<rparr>"]
  by (simp add: world0_def)

text \<open>
  C4, as the claim states it, fails in a production build: with \<open>config.async\<close> off and
  subscribers 2 and 1 in this insertion order, \<open>update()\<close> is invoked on 2 first.
\<close>

theorem notify_production_counterexample:
  "fst (notify True False (\<lambda>w s. s) 0 (world0\<lparr>subs := (\<lambda>_. [2, 1])\<rparr>)) = [2, 1]"
  by (simp add: notify_eq notify_snapshot_def world0_def)

section \<open>Properties of the component VNode hooks\<close>

text \<open>
  C3, as the code has it. The insert hook of a kept-alive component queues the instance
  for activation at the end of the patch when the owning context is already mounted (an
  update), and invokes the activated lifecycle directly, with \<open>direct = true\<close>, when the
  context is not mounted yet. It does exactly one of the two. (The context counts as
  mounted also when it is the instance itself, which the hook has just marked mounted.)
\<close>

theorem insert_hook_keepAlive:
  "cv_keepAlive vnode \<Longrightarrow>
   (if is_mounted s (cv_context vnode) \<or> cv_context vnode = cv_componentInstance vnode
    then activated_queue (insert_hook vnode s) = activated_queue s @ [cv_componentInstance vnode] \<and>
         activated_now (insert_hook vnode s) = activated_now s
    else activated_queue (insert_hook vnode s) = activated_queue s \<and>
         activated_now (insert_hook vnode s) =
           activated_now s @ [(cv_componentInstance vnode, True)])"
  by (simp add: insert_hook_def Let_def callHook_def queueActivatedComponent_def
      activateChildComponent_def)

theorem insert_hook_keepAlive_witness:
  "cv_keepAlive \<lparr>cv_context = 1, cv_componentInstance = 2, cv_keepAlive = True\<rparr> \<and>
   activated_queue (insert_hook \<lparr>cv_context = 1, cv_componentInstance = 2, cv_keepAlive = True\<rparr>
      (comp_world0\<lparr>is_mounted := (\<lambda>i. i = 1)\<rparr>)) = [2] \<and>
   activated_now (insert_hook \<lparr>cv_context = 1, cv_componentInstance = 2, cv_keepAlive = True\<rparr>
      (comp_world0\<lparr>is_mounted := (\<lambda>i. i = 1)\<rparr>)) = []"
  using insert_hook_keepAlive [of "\<lparr>cv_context = 1, cv_componentInstance = 2, cv_keepAlive = True\<rparr>"
      "comp_world0\<lparr>is_mounted := (\<lambda>i. i = 1)\<rparr>"]
  by (simp add: comp_world0_def)

text \<open>
  C3, as the claim states it, fails: with the owning context (instance 1) not mounted
  yet, the kept-alive instance 2 is not queued; its activated lifecycle is invoked
  directly.
\<close>

theorem insert_hook_unmounted_context_counterexample:
  "activated_queue (insert_hook \<lparr>cv_context = 1, cv_componentInstance = 2, cv_keepAlive = True\<rparr>
      comp_world0) = [] \<and>
   activated_now (insert_hook \<lparr>cv_context = 1, cv_componentInstance = 2, cv_keepAlive = True\<rparr>
      comp_world0) = [(2, True)]"
  by (simp add: insert_hook_def Let_def callHook_def queueActivatedComponent_def
      activateChildComponent_def comp_world0_def)

section \<open>Properties of transition-group's render\<close>

lemma set_transition_simps [simp]:
  "vn_tag (set_transition td c) = vn_tag c"
  "vn_key (set_transition td c) = vn_key c"
  "vn_elm (set_transition td c) = vn_elm c"
  "vn_componentOptions (set_transition td c) = vn_componentOptions c"
  "vn_data (set_transition td c) \<noteq> None"
  "has_transition td (set_transition td c)"
  "set_transition td (set_transition td c) = set_transition td c"
  by (simp_all add: set_transition_def has_transition_def split: option.splits)

lemma shape_simps [simp]:
  "kept_child (set_transition td c) = kept_child c"
  "unkeyed_child (set_transition td c) = unkeyed_child c"
  "keyed_warning (set_transition td c) = keyed_warning c"
  by (simp_all add: kept_child_def unkeyed_child_def key_ok_def keyed_warning_def child_name_def
      split: option.splits)

lemma raw_loop:
  "\<exists>mp'. fold (raw_step production td) raw (ch, mp, vs, ws) =
     (ch @ filter (\<lambda>c. kept_child (vs c)) raw, mp', raw_store td raw vs,
      ws @ map (\<lambda>c. keyed_warning (vs c)) (filter (\<lambda>c. \<not> production \<and> unkeyed_child (vs c)) raw))"
proof (induction raw arbitrary: ch mp vs ws)
  case Nil
  then show ?case by (simp add: raw_store_def)
next
  case (Cons x xs)
  show ?case
  proof (cases "kept_child (vs x)")
    case True
    let ?vs1 = "vs(x := set_transition td (vs x))"
    have step: "raw_step production td x (ch, mp, vs, ws) =
       (ch @ [x], mp(prop_name (vn_key (vs x)) \<mapsto> x), ?vs1, ws)"
      using True by (simp add: raw_step_def kept_child_def)
    have k: "\<And>c. kept_child (?vs1 c) = kept_child (vs c)" by simp
    have u: "\<And>c. unkeyed_child (?vs1 c) = unkeyed_child (vs c)" by simp
    have w: "\<And>c. keyed_warning (?vs1 c) = keyed_warning (vs c)" by simp
    have st: "raw_store td xs ?vs1 = raw_store td (x # xs) vs"
      using True by (auto simp: raw_store_def fun_eq_iff)
    have nu: "\<not> unkeyed_child (vs x)" using True by (simp add: kept_child_def unkeyed_child_def)
    from Cons.IH[of "ch @ [x]" "mp(prop_name (vn_key (vs x)) \<mapsto> x)" ?vs1 ws]
    show ?thesis using True nu by (simp add: step k u w st del: fun_upd_apply)
  next
    case False
    have st: "raw_store td xs vs = raw_store td (x # xs) vs"
      using False by (auto simp: raw_store_def fun_eq_iff)
    show ?thesis
    proof (cases "unkeyed_child (vs x)")
      case True
      have step: "raw_step production td x (ch, mp, vs, ws) =
        (ch, mp, vs, if production then ws else ws @ [keyed_warning (vs x)])"
        using True by (simp add: raw_step_def unkeyed_child_def)
      from Cons.IH[of ch mp vs "if production then ws else ws @ [keyed_warning (vs x)]"]
      show ?thesis using True False by (auto simp: step st)
    next
      case u: False
      have step: "raw_step production td x (ch, mp, vs, ws) = (ch, mp, vs, ws)"
        using False u by (auto simp: raw_step_def unkeyed_child_def kept_child_def)
      from Cons.IH[of ch mp vs ws]
      show ?thesis using u False by (simp add: step st)
    qed
  qed
qed

lemma prev_loop_store:
  "prev_loop td getRect mp pcs (kept, removed, vs) = Inr (kept', removed', vs') \<Longrightarrow>
   (\<forall>c. c \<notin> set pcs \<longrightarrow> vs' c = vs c) \<and>
   (\<forall>c. has_transition td (vs c) \<longrightarrow> has_transition td (vs' c)) \<and>
   (\<forall>c. kept_child (vs' c) = kept_child (vs c))"
proof (induction pcs arbitrary: kept removed vs)
  case Nil
  then show ?case by simp
next
  case (Cons x xs)
  from Cons.prems obtain d el where d: "vn_data (vs x) = Some d" and el: "vn_elm (vs x) = Some el"
    by (auto split: option.splits)
  let ?vs1 = "vs(x := (vs x)\<lparr>vn_data := Some (d\<lparr>d_transition := Some td, d_pos := Some (getRect el)\<rparr>)\<rparr>)"
  from Cons.prems d el obtain k r where
    rec: "prev_loop td getRect mp xs (k, r, ?vs1) = Inr (kept', removed', vs')"
    by (auto simp: Let_def split: if_splits)
  from Cons.IH[OF rec] have ih1: "\<forall>c. c \<notin> set xs \<longrightarrow> vs' c = ?vs1 c"
    and ih2: "\<forall>c. has_transition td (?vs1 c) \<longrightarrow> has_transition td (vs' c)"
    and ih3: "\<forall>c. kept_child (vs' c) = kept_child (?vs1 c)" by blast+
  have a: "\<forall>c. c \<notin> set (x # xs) \<longrightarrow> vs' c = vs c"
    using ih1 by auto
  have b: "\<forall>c. has_transition td (vs c) \<longrightarrow> has_transition td (?vs1 c)"
    by (auto simp: has_transition_def)
  have c: "\<forall>c. kept_child (?vs1 c) = kept_child (vs c)"
    by (simp add: kept_child_def key_ok_def)
  from a b c ih2 ih3 show ?case by blast
qed

lemma prev_loop_total:
  "list_all (\<lambda>c. vn_data (vs c) \<noteq> None \<and> vn_elm (vs c) \<noteq> None) pcs \<Longrightarrow>
   \<exists>r. prev_loop td getRect mp pcs (kept, removed, vs) = Inr r"
proof (induction pcs arbitrary: kept removed vs)
  case Nil
  then show ?case by simp
next
  case (Cons x xs)
  from Cons.prems obtain d el where d: "vn_data (vs x) = Some d" and el: "vn_elm (vs x) = Some el"
    by auto
  let ?vs1 = "vs(x := (vs x)\<lparr>vn_data := Some (d\<lparr>d_transition := Some td, d_pos := Some (getRect el)\<rparr>)\<rparr>)"
  have "list_all (\<lambda>c. vn_data (?vs1 c) \<noteq> None \<and> vn_elm (?vs1 c) \<noteq> None) xs"
    using Cons.prems el by (auto simp: list_all_iff)
  then have ih: "\<And>k r. \<exists>res. prev_loop td getRect mp xs (k, r, ?vs1) = Inr res"
    by (rule Cons.IH[of ?vs1])
  show ?case using ih[of "kept @ [x]" removed] ih[of kept "removed @ [x]"] d el
    by (simp add: Let_def del: fun_upd_apply)
qed

lemma unkeyed_child_iff:
  "unkeyed_child c \<longleftrightarrow> truthy_str (vn_tag c) \<and>
     (vn_key c = KUndefined \<or> vn_key c = KNull \<or>
      starts_with ''__vlist'' (key_string (vn_key c)))"
  by (auto simp: unkeyed_child_def key_ok_def)

lemma raw_store_ready:
  "vn_data (vs c) \<noteq> None \<and> vn_elm (vs c) \<noteq> None \<Longrightarrow>
   vn_data (raw_store td raw vs c) \<noteq> None \<and> vn_elm (raw_store td raw vs c) \<noteq> None"
  by (auto simp: raw_store_def set_transition_def)

lemma raw_store_kept: "kept_child (raw_store td raw vs c) = kept_child (vs c)"
  by (simp add: raw_store_def)

lemma render_result:
  assumes "prev_ready g"
  shows "\<exists>out g'. render td getRect production g = Inr (out, g') \<and>
     ov_children out = filter (\<lambda>c. kept_child (tg_vnodes g c)) (raw_children g) \<and>
     tg_children g' = Some (ov_children out) \<and>
     tg_warnings g' = tg_warnings g @ map (\<lambda>c. keyed_warning (tg_vnodes g c))
        (filter (\<lambda>c. \<not> production \<and> unkeyed_child (tg_vnodes g c)) (raw_children g)) \<and>
     (\<forall>c. c \<notin> set (prev_children g) \<longrightarrow> tg_vnodes g' c = raw_store td (raw_children g) (tg_vnodes g) c) \<and>
     (\<forall>c. has_transition td (raw_store td (raw_children g) (tg_vnodes g) c) \<longrightarrow> has_transition td (tg_vnodes g' c)) \<and>
     (\<forall>c. kept_child (tg_vnodes g' c) = kept_child (tg_vnodes g c))"
proof -
  let ?raw = "raw_children g" and ?vs = "tg_vnodes g"
  obtain mp where f: "fold (raw_step production td) ?raw ([], Map.empty, ?vs, tg_warnings g) =
     (filter (\<lambda>c. kept_child (?vs c)) ?raw, mp, raw_store td ?raw ?vs,
      tg_warnings g @ map (\<lambda>c. keyed_warning (?vs c))
        (filter (\<lambda>c. \<not> production \<and> unkeyed_child (?vs c)) ?raw))"
    using raw_loop[of production td ?raw "[]" Map.empty ?vs "tg_warnings g"] by auto
  show ?thesis
  proof (cases "tg_children g")
    case None
    then show ?thesis
      using f by (simp add: render_def Let_def raw_children_def[symmetric] prev_children_def
          raw_store_kept)
  next
    case (Some pcs)
    with assms have "list_all (\<lambda>c. vn_data (?vs c) \<noteq> None \<and> vn_elm (?vs c) \<noteq> None) pcs"
      by (simp add: prev_ready_def)
    then have "list_all (\<lambda>c. vn_data (raw_store td ?raw ?vs c) \<noteq> None \<and>
                 vn_elm (raw_store td ?raw ?vs c) \<noteq> None) pcs"
      using raw_store_ready by (simp add: list_all_iff)
    from prev_loop_total[OF this, of td getRect mp "[]" "[]"]
    obtain k r vs' where pl: "prev_loop td getRect mp pcs ([], [], raw_store td ?raw ?vs) = Inr (k, r, vs')"
      by (metis prod_cases3)
    from prev_loop_store[OF pl]
    have a: "\<forall>c. c \<notin> set pcs \<longrightarrow> vs' c = raw_store td ?raw ?vs c"
      and b: "\<forall>c. has_transition td (raw_store td ?raw ?vs c) \<longrightarrow> has_transition td (vs' c)"
      and c: "\<forall>c. kept_child (vs' c) = kept_child (?vs c)"
      by (simp_all add: raw_store_kept)
    show ?thesis
      using f pl a b c Some
      by (simp add: render_def Let_def raw_children_def[symmetric] prev_children_def)
  qed
qed

lemma first_render_ready: "tg_children g = None \<Longrightarrow> prev_ready g \<and> children_keyed g"
  by (simp add: prev_ready_def children_keyed_def)

text \<open>
  C10. When every previous child has \<open>data\<close> and \<open>elm\<close> (the second loop reads both)
  and is an element with an accepted key (what a render leaves in \<open>this.children\<close>),
  \<open>render\<close> returns. The children of the returned VNode are exactly the element
  children of the slot whose key is accepted, in the slot's order; they become
  \<open>this.children\<close>, so that the next render starts from such a state again. An element
  child whose key is \<open>null\<close> or \<open>undefined\<close>, or whose stringified key starts with
  \<open>__vlist\<close>, is not among the children of the returned VNode, and \<open>render\<close> leaves that
  VNode as it was. The warnings added are those for such children, outside production
  builds only. Every child of the returned VNode has the extracted transition data on
  \<open>data.transition\<close>.
\<close>

theorem render_excludes_unkeyed:
  assumes "prev_ready g" and "children_keyed g"
  shows "\<exists>out g'. render td getRect production g = Inr (out, g') \<and>
     ov_children out = filter (\<lambda>c. kept_child (tg_vnodes g c)) (raw_children g) \<and>
     tg_children g' = Some (ov_children out) \<and> children_keyed g' \<and>
     (\<forall>c \<in> set (raw_children g).
        truthy_str (vn_tag (tg_vnodes g c)) \<and>
        (vn_key (tg_vnodes g c) = KUndefined \<or> vn_key (tg_vnodes g c) = KNull \<or>
         starts_with ''__vlist'' (key_string (vn_key (tg_vnodes g c))))
        \<longrightarrow> c \<notin> set (ov_children out) \<and> tg_vnodes g' c = tg_vnodes g c) \<and>
     tg_warnings g' = tg_warnings g @ map (\<lambda>c. keyed_warning (tg_vnodes g c))
        (filter (\<lambda>c. \<not> production \<and> unkeyed_child (tg_vnodes g c)) (raw_children g)) \<and>
     (\<forall>c \<in> set (ov_children out). has_transition td (tg_vnodes g' c))"
proof -
  from render_result[OF assms(1), of td getRect production]
  obtain out g' where r: "render td getRect production g = Inr (out, g')"
    and ch: "ov_children out = filter (\<lambda>c. kept_child (tg_vnodes g c)) (raw_children g)"
    and tc: "tg_children g' = Some (ov_children out)"
    and ws: "tg_warnings g' = tg_warnings g @ map (\<lambda>c. keyed_warning (tg_vnodes g c))
        (filter (\<lambda>c. \<not> production \<and> unkeyed_child (tg_vnodes g c)) (raw_children g))"
    and st: "\<forall>c. c \<notin> set (prev_children g) \<longrightarrow> tg_vnodes g' c = raw_store td (raw_children g) (tg_vnodes g) c"
    and tr: "\<forall>c. has_transition td (raw_store td (raw_children g) (tg_vnodes g) c) \<longrightarrow> has_transition td (tg_vnodes g' c)"
    and kc: "\<forall>c. kept_child (tg_vnodes g' c) = kept_child (tg_vnodes g c)"
    by blast
  have pk: "\<forall>c \<in> set (prev_children g). kept_child (tg_vnodes g c)"
    using assms(2) by (simp add: children_keyed_def prev_children_def list_all_iff split: option.splits)
  have ck: "children_keyed g'"
    using tc ch kc by (simp add: children_keyed_def list_all_iff)
  have p1: "\<forall>c \<in> set (raw_children g).
        truthy_str (vn_tag (tg_vnodes g c)) \<and>
        (vn_key (tg_vnodes g c) = KUndefined \<or> vn_key (tg_vnodes g c) = KNull \<or>
         starts_with ''__vlist'' (key_string (vn_key (tg_vnodes g c))))
        \<longrightarrow> c \<notin> set (ov_children out) \<and> tg_vnodes g' c = tg_vnodes g c"
  proof (intro ballI impI)
    fix c
    assume "c \<in> set (raw_children g)"
      and "truthy_str (vn_tag (tg_vnodes g c)) \<and>
        (vn_key (tg_vnodes g c) = KUndefined \<or> vn_key (tg_vnodes g c) = KNull \<or>
         starts_with ''__vlist'' (key_string (vn_key (tg_vnodes g c))))"
    then have u: "unkeyed_child (tg_vnodes g c)" by (simp add: unkeyed_child_iff)
    then have nk: "\<not> kept_child (tg_vnodes g c)" by (simp add: unkeyed_child_def kept_child_def)
    then have rs: "raw_store td (raw_children g) (tg_vnodes g) c = tg_vnodes g c"
      by (simp add: raw_store_def)
    from nk pk have "c \<notin> set (prev_children g)" by blast
    with st rs nk ch show "c \<notin> set (ov_children out) \<and> tg_vnodes g' c = tg_vnodes g c"
      by simp
  qed
  have p2: "\<forall>c \<in> set (ov_children out). has_transition td (tg_vnodes g' c)"
  proof
    fix c assume "c \<in> set (ov_children out)"
    with ch have m: "c \<in> set (raw_children g)" and k: "kept_child (tg_vnodes g c)" by auto
    then have "has_transition td (raw_store td (raw_children g) (tg_vnodes g) c)"
      by (simp add: raw_store_def)
    with tr show "has_transition td (tg_vnodes g' c)" by blast
  qed
  from r ch tc ck p1 ws p2 show ?thesis by blast
qed

theorem render_excludes_unkeyed_witness:
  "prev_ready tgroup1 \<and> children_keyed tgroup1 \<and>
   (\<exists>out g'. render 5 (\<lambda>_. (0, 0)) False tgroup1 = Inr (out, g') \<and>
      ov_children out = [4, 5] \<and> tg_children g' = Some [4, 5] \<and>
      tg_vnodes g' 2 = tg_vnodes tgroup1 2 \<and> tg_vnodes g' 3 = tg_vnodes tgroup1 3 \<and>
      has_transition 5 (tg_vnodes g' 4) \<and> has_transition 5 (tg_vnodes g' 5) \<and>
      length (tg_warnings g') = 2)"
proof -
  have pr: "prev_ready tgroup1"
    by (simp add: prev_ready_def tgroup1_def)
  have kd: "children_keyed tgroup1"
    by (simp add: children_keyed_def tgroup1_def vnode0_def kept_child_def key_ok_def
        truthy_str_def starts_with_def key_string_def)
  have raw: "raw_children tgroup1 = [4, 2, 5, 3]"
    by (simp add: raw_children_def tgroup1_def)
  have k4: "kept_child (tg_vnodes tgroup1 4)" and k5: "kept_child (tg_vnodes tgroup1 5)"
    and k2: "\<not> kept_child (tg_vnodes tgroup1 2)" and k3: "\<not> kept_child (tg_vnodes tgroup1 3)"
    by (simp_all add: tgroup1_def vnode0_def kept_child_def key_ok_def truthy_str_def
        starts_with_def key_string_def)
  have u2: "unkeyed_child (tg_vnodes tgroup1 2)" and u3: "unkeyed_child (tg_vnodes tgroup1 3)"
    and u4: "\<not> unkeyed_child (tg_vnodes tgroup1 4)" and u5: "\<not> unkeyed_child (tg_vnodes tgroup1 5)"
    by (simp_all add: tgroup1_def vnode0_def unkeyed_child_def key_ok_def truthy_str_def
        starts_with_def key_string_def)
  have c2: "truthy_str (vn_tag (tg_vnodes tgroup1 2)) \<and> vn_key (tg_vnodes tgroup1 2) = KUndefined"
    by (simp add: tgroup1_def vnode0_def truthy_str_def)
  have c3: "truthy_str (vn_tag (tg_vnodes tgroup1 3)) \<and>
      starts_with ''__vlist'' (key_string (vn_key (tg_vnodes tgroup1 3)))"
    by (simp add: tgroup1_def vnode0_def truthy_str_def starts_with_def key_string_def)
  from render_excludes_unkeyed [OF pr kd, of 5 "\<lambda>_. (0, 0)" False]
  obtain out g' where r: "render 5 (\<lambda>_. (0, 0)) False tgroup1 = Inr (out, g')"
    and ch: "ov_children out = filter (\<lambda>c. kept_child (tg_vnodes tgroup1 c)) (raw_children tgroup1)"
    and tc: "tg_children g' = Some (ov_children out)"
    and ex: "\<forall>c \<in> set (raw_children tgroup1).
        truthy_str (vn_tag (tg_vnodes tgroup1 c)) \<and>
        (vn_key (tg_vnodes tgroup1 c) = KUndefined \<or> vn_key (tg_vnodes tgroup1 c) = KNull \<or>
         starts_with ''__vlist'' (key_string (vn_key (tg_vnodes tgroup1 c))))
        \<longrightarrow> c \<notin> set (ov_children out) \<and> tg_vnodes g' c = tg_vnodes tgroup1 c"
    and w: "tg_warnings g' = tg_warnings tgroup1 @ map (\<lambda>c. keyed_warning (tg_vnodes tgroup1 c))
        (filter (\<lambda>c. \<not> False \<and> unkeyed_child (tg_vnodes tgroup1 c)) (raw_children tgroup1))"
    and ht: "\<forall>c \<in> set (ov_children out). has_transition 5 (tg_vnodes g' c)"
    by blast
  have o: "ov_children out = [4, 5]" using ch k2 k3 k4 k5 by (simp add: raw)
  from ex c2 have e2: "tg_vnodes g' 2 = tg_vnodes tgroup1 2" by (simp add: raw)
  from ex c3 have e3: "tg_vnodes g' 3 = tg_vnodes tgroup1 3" by (simp add: raw)
  from ht o have h: "has_transition 5 (tg_vnodes g' 4) \<and> has_transition 5 (tg_vnodes g' 5)"
    by simp
  have "tg_warnings tgroup1 = []" by (simp add: tgroup1_def)
  with w u2 u3 u4 u5 have l: "length (tg_warnings g') = 2" by (simp add: raw)
  from pr kd r o tc e2 e3 h l show ?thesis by simp
qed

section \<open>Properties of the async component resolver\<close>

lemma forceRender_pending:
  "pending_inv s \<Longrightarrow> pending_inv (forceRender 0 b s) \<and>
     c_sync (a_closures (forceRender 0 b s) 0) = c_sync (a_closures s 0)"
  by (simp add: pending_inv_def forceRender_def Let_def)

lemma resolve_cb_pending:
  "pending_inv s \<Longrightarrow> pending_inv (resolve_cb 0 res s) \<and>
     c_sync (a_closures (resolve_cb 0 res s) 0) = c_sync (a_closures s 0)"
  by (simp add: pending_inv_def resolve_cb_def forceRender_def Let_def)

lemma reject_cb_pending:
  "pending_inv s \<Longrightarrow> pending_inv (reject_cb production 0 s) \<and>
     c_sync (a_closures (reject_cb production 0 s) 0) = c_sync (a_closures s 0)"
  by (simp add: pending_inv_def reject_cb_def forceRender_def Let_def)

lemma run_sync_pending:
  "pending_inv s \<Longrightarrow> pending_inv (run_sync production 0 cs s) \<and>
     c_sync (a_closures (run_sync production 0 cs s) 0) = c_sync (a_closures s 0)"
proof (induction cs arbitrary: s)
  case Nil
  then show ?case by simp
next
  case (Cons c cs)
  show ?case
  proof (cases c)
    case (CallResolve res)
    from resolve_cb_pending[OF Cons.prems, of res] Cons.IH[of "resolve_cb 0 res s"]
    show ?thesis by (simp add: CallResolve)
  next
    case CallReject
    from reject_cb_pending[OF Cons.prems, of production] Cons.IH[of "reject_cb production 0 s"]
    show ?thesis by (simp add: CallReject)
  qed
qed

lemma handle_res_pending:
  "pending_inv s \<Longrightarrow> pending_inv (handle_res 0 res s) \<and>
     c_sync (a_closures (handle_res 0 res s) 0) = c_sync (a_closures s 0)"
  by (cases res) (simp_all add: pending_inv_def handle_res_def Let_def split: option.splits)

lemma timerLoading_pending:
  "pending_inv s \<Longrightarrow> pending_inv (timerLoading_fires 0 s) \<and>
     c_sync (a_closures (timerLoading_fires 0 s) 0) = c_sync (a_closures s 0)"
  by (simp add: pending_inv_def timerLoading_fires_def forceRender_def Let_def split: option.splits)

lemma timerTimeout_pending:
  assumes "pending_inv s"
  shows "pending_inv (timerTimeout_fires production 0 s) \<and>
     c_sync (a_closures (timerTimeout_fires production 0 s) 0) = c_sync (a_closures s 0)"
proof (cases "c_timerTimeout (a_closures s 0)")
  case None
  then show ?thesis using assms by (simp add: timerTimeout_fires_def)
next
  case (Some t)
  let ?s1 = "s\<lparr>a_closures := (a_closures s)(0 := (a_closures s 0)\<lparr>c_timerTimeout := None\<rparr>)\<rparr>"
  have p: "pending_inv ?s1" using assms by (simp add: pending_inv_def)
  have c: "c_sync (a_closures ?s1 0) = c_sync (a_closures s 0)" by simp
  show ?thesis
    using reject_cb_pending[OF p, of production] p c Some
    by (simp add: timerTimeout_fires_def Let_def del: fun_upd_apply)
qed

lemma owner_destroyed_pending:
  "pending_inv s \<Longrightarrow> pending_inv (owner_destroyed 0 s) \<and>
     c_sync (a_closures (owner_destroyed 0 s) 0) = c_sync (a_closures s 0)"
  by (simp add: pending_inv_def owner_destroyed_def Let_def remove_item_def)

lemma request_ainv:
  assumes "ainv s"
  shows "ainv (snd (resolveAsyncComponent production fb owner s))"
proof (cases "a_calls s = 0 \<and> a_factory s = factory0")
  case True
  show ?thesis
  proof (cases owner)
    case None
    then show ?thesis using True
      by (simp add: resolveAsyncComponent_def Let_def factory0_def ainv_def)
  next
    case (Some ow)
    let ?s2 = "s\<lparr>a_arrays := (a_arrays s)(0 := [ow]),
                  a_factory := (a_factory s)\<lparr>f_owners := Some 0\<rparr>,
                  a_closures := (a_closures s)
                    (0 := \<lparr>c_owners = 0, c_owner = ow, c_sync = True,
                            c_timerLoading = None, c_timerTimeout = None,
                            c_resolve_called = False, c_reject_called = False\<rparr>),
                  a_calls := Suc 0\<rparr>"
    let ?s3 = "run_sync production 0 (fb_sync fb) ?s2"
    let ?s4 = "handle_res 0 (fb_res fb) ?s3"
    let ?s5 = "?s4\<lparr>a_closures := (a_closures ?s4)(0 := (a_closures ?s4 0)\<lparr>c_sync := False\<rparr>)\<rparr>"
    have p2: "pending_inv ?s2" by (simp add: pending_inv_def)
    from run_sync_pending[OF p2] have p3: "pending_inv ?s3" by blast
    from handle_res_pending[OF p3] have p4: "pending_inv ?s4" by blast
    then have "pending_inv ?s5 \<and> \<not> c_sync (a_closures ?s5 0)" by (simp add: pending_inv_def)
    then have a: "ainv ?s5" by (simp add: ainv_def)
    have "snd (resolveAsyncComponent production fb owner s) = ?s5"
      using True Some by (simp add: resolveAsyncComponent_def Let_def factory0_def)
    with a show ?thesis by simp
  qed
next
  case False
  with assms have p: "pending_inv s" and ns: "\<not> c_sync (a_closures s 0)" by (auto simp: ainv_def)
  then show ?thesis
    by (auto simp: resolveAsyncComponent_def Let_def ainv_def pending_inv_def split: option.splits)
qed

lemma astep_ainv: "ainv s \<Longrightarrow> ainv (astep production ev s)"
proof (cases "a_calls s = 0 \<and> a_factory s = factory0")
  case True
  assume a: "ainv s"
  show ?thesis
  proof (cases ev)
    case (Request owner fb)
    then show ?thesis using request_ainv[OF a] by (simp add: astep_def)
  qed (use a True in \<open>simp_all add: astep_def\<close>)
next
  case False
  assume a: "ainv s"
  with False have p: "pending_inv s" and ns: "\<not> c_sync (a_closures s 0)" by (auto simp: ainv_def)
  then have c1: "a_calls s = 1" by (simp add: pending_inv_def)
  have k0: "\<And>k. k < a_calls s \<longleftrightarrow> k = 0" using c1 by auto
  show ?thesis
  proof (cases ev)
    case (Request owner fb)
    then show ?thesis using request_ainv[OF a] by (simp add: astep_def)
  next
    case (Resolve k res)
    then show ?thesis using resolve_cb_pending[OF p, of res] ns a
      by (cases "k = 0") (simp_all add: astep_def k0 ainv_def)
  next
    case (Reject k)
    then show ?thesis using reject_cb_pending[OF p, of production] ns a
      by (cases "k = 0") (simp_all add: astep_def k0 ainv_def)
  next
    case (LoadingTimer k)
    then show ?thesis using timerLoading_pending[OF p] ns a
      by (cases "k = 0") (simp_all add: astep_def k0 ainv_def)
  next
    case (TimeoutTimer k)
    then show ?thesis using timerTimeout_pending[OF p, of production] ns a
      by (cases "k = 0") (simp_all add: astep_def k0 ainv_def)
  next
    case (OwnerDestroyed k)
    then show ?thesis using owner_destroyed_pending[OF p] ns a
      by (cases "k = 0") (simp_all add: astep_def k0 ainv_def)
  qed
qed

lemma arun_ainv: "ainv s \<Longrightarrow> ainv (arun production evs s)"
  unfolding arun_def
  by (induction evs arbitrary: s) (simp_all add: astep_ainv)

lemma ainv_init: "ainv aworld0"
  by (simp add: ainv_def aworld0_def)

lemma astep_pending_state:
  assumes p: "pending_inv s" and ns: "\<not> c_sync (a_closures s 0)"
  shows "pending_inv (astep production ev s) \<and> \<not> c_sync (a_closures (astep production ev s) 0)"
proof -
  have c1: "a_calls s = 1" using p by (simp add: pending_inv_def)
  have k0: "\<And>k. k < a_calls s \<longleftrightarrow> k = 0" using c1 by auto
  show ?thesis
  proof (cases ev)
    case (Request owner fb)
    then show ?thesis using p ns
      by (auto simp: astep_def resolveAsyncComponent_def Let_def pending_inv_def split: option.splits)
  next
    case (Resolve k res)
    then show ?thesis using resolve_cb_pending[OF p, of res] ns p
      by (cases "k = 0") (simp_all add: astep_def k0)
  next
    case (Reject k)
    then show ?thesis using reject_cb_pending[OF p, of production] ns p
      by (cases "k = 0") (simp_all add: astep_def k0)
  next
    case (LoadingTimer k)
    then show ?thesis using timerLoading_pending[OF p] ns p
      by (cases "k = 0") (simp_all add: astep_def k0)
  next
    case (TimeoutTimer k)
    then show ?thesis using timerTimeout_pending[OF p, of production] ns p
      by (cases "k = 0") (simp_all add: astep_def k0)
  next
    case (OwnerDestroyed k)
    then show ?thesis using owner_destroyed_pending[OF p] ns p
      by (cases "k = 0") (simp_all add: astep_def k0)
  qed
qed

lemma arun_snoc: "arun production (evs @ [e]) s = astep production e (arun production evs s)"
  by (simp add: arun_def)

lemma ainv_calls: "ainv s \<Longrightarrow> a_calls s \<le> 1"
  by (auto simp: ainv_def pending_inv_def)

lemma request_invokes:
  assumes "ainv s"
  shows "a_calls (astep production (Request (Some ow) fb) s) = 1"
proof (cases "a_calls s = 0 \<and> a_factory s = factory0")
  case True
  have "ainv (astep production (Request (Some ow) fb) s)" using assms by (rule astep_ainv)
  moreover have "a_calls (astep production (Request (Some ow) fb) s) \<noteq> 0"
  proof
    assume z: "a_calls (astep production (Request (Some ow) fb) s) = 0"
    have "ainv (astep production (Request (Some ow) fb) s)" using assms by (rule astep_ainv)
    with z have "a_factory (astep production (Request (Some ow) fb) s) = factory0"
      by (auto simp: ainv_def pending_inv_def)
    then have "f_owners (a_factory (snd (resolveAsyncComponent production fb (Some ow) s))) = None"
      by (simp add: astep_def factory0_def)
    moreover
    let ?s2 = "s\<lparr>a_arrays := (a_arrays s)(0 := [ow]),
                  a_factory := (a_factory s)\<lparr>f_owners := Some 0\<rparr>,
                  a_closures := (a_closures s)
                    (0 := \<lparr>c_owners = 0, c_owner = ow, c_sync = True,
                            c_timerLoading = None, c_timerTimeout = None,
                            c_resolve_called = False, c_reject_called = False\<rparr>),
                  a_calls := Suc 0\<rparr>"
    let ?s4 = "handle_res 0 (fb_res fb) (run_sync production 0 (fb_sync fb) ?s2)"
    have p2: "pending_inv ?s2" by (simp add: pending_inv_def)
    from run_sync_pending[OF p2] have "pending_inv (run_sync production 0 (fb_sync fb) ?s2)" by blast
    from handle_res_pending[OF this] have "pending_inv ?s4" by blast
    then have "f_owners (a_factory ?s4) = Some 0" by (simp add: pending_inv_def)
    then have "f_owners (a_factory (snd (resolveAsyncComponent production fb (Some ow) s))) = Some 0"
      using True by (simp add: resolveAsyncComponent_def Let_def factory0_def)
    ultimately show False by simp
  qed
  ultimately show ?thesis using ainv_calls by fastforce
next
  case False
  with assms have "pending_inv s" "\<not> c_sync (a_closures s 0)" by (auto simp: ainv_def)
  from astep_pending_state[OF this] show ?thesis by (simp add: pending_inv_def)
qed

lemma arun_invoked:
  "Request (Some ow) fb \<in> set evs \<Longrightarrow> a_calls (arun production evs aworld0) = 1"
proof (induction evs rule: rev_induct)
  case Nil
  then show ?case by simp
next
  case (snoc e evs)
  have inv: "ainv (arun production evs aworld0)" using ainv_init by (rule arun_ainv)
  show ?case
  proof (cases "e = Request (Some ow) fb")
    case True
    then show ?thesis using request_invokes[OF inv] by (simp add: arun_snoc)
  next
    case False
    with snoc.prems have "Request (Some ow) fb \<in> set evs" by simp
    from snoc.IH[OF this] have c: "a_calls (arun production evs aworld0) = 1" .
    with inv have "pending_inv (arun production evs aworld0)"
      and "\<not> c_sync (a_closures (arun production evs aworld0) 0)" by (auto simp: ainv_def)
    from astep_pending_state[OF this] show ?thesis by (simp add: arun_snoc pending_inv_def)
  qed
qed

lemma distinct_count_list: "distinct xs \<Longrightarrow> x \<in> set xs \<Longrightarrow> count_list xs x = 1"
  by (induction xs) auto

lemma resolve_twice:
  "astep production (Resolve k res') (astep production (Resolve k res) s) =
   astep production (Resolve k res) s"
  by (simp add: astep_def resolve_cb_def forceRender_def Let_def)

lemma owners_distinct: "ainv s \<Longrightarrow> distinct (owners_now s)"
  unfolding ainv_def pending_inv_def owners_now_def
  by (cases "f_owners (a_factory s)") (auto simp: factory0_def)

lemma resolve_pending_forces:
  assumes p: "pending_inv s" and ns: "\<not> c_sync (a_closures s 0)"
    and nr: "\<not> c_resolve_called (a_closures s 0)"
  shows "a_forced (astep production (Resolve 0 res) s) = a_forced s @ owners_now s \<and>
         owners_now (astep production (Resolve 0 res) s) = []"
proof -
  have c1: "a_calls s = 1" and fo: "f_owners (a_factory s) = Some 0"
    and co: "c_owners (a_closures s 0) = 0"
    using p by (simp_all add: pending_inv_def)
  have st: "astep production (Resolve 0 res) s = resolve_cb 0 res s"
    using c1 by (simp add: astep_def)
  show ?thesis
    unfolding st using ns nr fo co
    by (simp add: resolve_cb_def forceRender_def Let_def owners_now_def)
qed

text \<open>
  C2. Whatever happens to a factory that starts unrequested, the factory function is
  invoked at most once, and exactly once as soon as a component instance has requested
  it; the owners list never holds an instance twice; a resolution that arrives after
  the initiating call calls \<open>$forceUpdate()\<close> once on every owner then recorded and
  empties the list; and a second call of \<open>resolve\<close> changes nothing.
\<close>

theorem async_single_flight:
  "(let s = arun production evs aworld0 in
      a_calls s \<le> 1 \<and>
      ((\<exists>ow fb. Request (Some ow) fb \<in> set evs) \<longrightarrow> a_calls s = 1) \<and>
      distinct (owners_now s) \<and>
      (a_calls s = 1 \<and> \<not> c_resolve_called (a_closures s 0) \<longrightarrow>
         a_forced (astep production (Resolve 0 res) s) = a_forced s @ owners_now s \<and>
         owners_now (astep production (Resolve 0 res) s) = [] \<and>
         (\<forall>ow \<in> set (owners_now s). count_list (owners_now s) ow = 1)) \<and>
      astep production (Resolve 0 res') (astep production (Resolve 0 res) s) =
        astep production (Resolve 0 res) s)"
proof -
  let ?s = "arun production evs aworld0"
  have inv: "ainv ?s" using ainv_init by (rule arun_ainv)
  have a: "a_calls ?s \<le> 1" using inv by (rule ainv_calls)
  have b: "(\<exists>ow fb. Request (Some ow) fb \<in> set evs) \<longrightarrow> a_calls ?s = 1"
    using arun_invoked by blast
  have c: "distinct (owners_now ?s)"
    using inv by (rule owners_distinct)
  have d: "a_calls ?s = 1 \<and> \<not> c_resolve_called (a_closures ?s 0) \<longrightarrow>
         a_forced (astep production (Resolve 0 res) ?s) = a_forced ?s @ owners_now ?s \<and>
         owners_now (astep production (Resolve 0 res) ?s) = [] \<and>
         (\<forall>ow \<in> set (owners_now ?s). count_list (owners_now ?s) ow = 1)"
  proof (intro impI, elim conjE)
    assume c1: "a_calls ?s = 1" and nr: "\<not> c_resolve_called (a_closures ?s 0)"
    from inv c1 have p: "pending_inv ?s" and ns: "\<not> c_sync (a_closures ?s 0)"
      unfolding ainv_def by auto
    have cnt: "\<forall>ow \<in> set (owners_now ?s). count_list (owners_now ?s) ow = 1"
      by (simp add: distinct_count_list[OF c])
    from resolve_pending_forces[OF p ns nr, of production res] cnt
    show "a_forced (astep production (Resolve 0 res) ?s) = a_forced ?s @ owners_now ?s \<and>
         owners_now (astep production (Resolve 0 res) ?s) = [] \<and>
         (\<forall>ow \<in> set (owners_now ?s). count_list (owners_now ?s) ow = 1)" by simp
  qed
  have e: "astep production (Resolve 0 res') (astep production (Resolve 0 res) ?s) =
        astep production (Resolve 0 res) ?s" by (rule resolve_twice)
  show ?thesis unfolding Let_def by (intro conjI a b c d e)
qed

theorem async_single_flight_witness:
  "(let s = arun False [Request (Some 7) fb_pending, Request (Some 8) fb_pending,
                        Request (Some 7) fb_pending] aworld0
    in a_calls s = 1 \<and> owners_now s = [7, 8] \<and> \<not> c_resolve_called (a_closures s 0) \<and>
       a_forced (astep False (Resolve 0 (Ctor 1)) s) = [7, 8] \<and>
       a_forced (astep False (Resolve 0 (Ctor 2)) (astep False (Resolve 0 (Ctor 1)) s)) = [7, 8])"
  using async_single_flight [of False "[Request (Some 7) fb_pending, Request (Some 8) fb_pending,
      Request (Some 7) fb_pending]" "Ctor 1" "Ctor 2"]
  by (simp add: arun_def astep_def resolveAsyncComponent_def Let_def aworld0_def factory0_def
      fb_pending_def handle_res_def owners_now_def resolve_cb_def forceRender_def closure0_def)

lemma reject_cb_core:
  "f_errorComp (a_factory s) = None \<Longrightarrow> sync_core k (reject_cb production k s) = sync_core k s"
  by (simp add: sync_core_def reject_cb_def Let_def)

lemma resolve_cb_called: "c_resolve_called (a_closures s k) \<Longrightarrow> resolve_cb k res s = s"
  by (simp add: resolve_cb_def)

lemma run_sync_resolved:
  "c_resolve_called (a_closures s k) \<Longrightarrow> f_errorComp (a_factory s) = None \<Longrightarrow>
   sync_core k (run_sync production k cs s) = sync_core k s"
proof (induction cs arbitrary: s)
  case Nil
  then show ?case by simp
next
  case (Cons c cs)
  show ?case
  proof (cases c)
    case (CallResolve res)
    then show ?thesis using Cons by (simp add: resolve_cb_called)
  next
    case CallReject
    have core: "sync_core k (reject_cb production k s) = sync_core k s"
      using Cons.prems(2) by (rule reject_cb_core)
    then have "c_resolve_called (a_closures (reject_cb production k s) k)"
      and "f_errorComp (a_factory (reject_cb production k s)) = None"
      using Cons.prems by (simp_all add: sync_core_def)
    from Cons.IH[OF this] core show ?thesis by (simp add: CallReject)
  qed
qed

lemma resolve_cb_sync_fields:
  "\<not> c_resolve_called (a_closures s k) \<Longrightarrow> c_sync (a_closures s k) \<Longrightarrow>
   c_resolve_called (a_closures (resolve_cb k res s) k) \<and>
   f_errorComp (a_factory (resolve_cb k res s)) = f_errorComp (a_factory s)"
  by (simp add: resolve_cb_def Let_def)

lemma run_sync_fresh:
  "\<not> c_resolve_called (a_closures s k) \<Longrightarrow> c_sync (a_closures s k) \<Longrightarrow>
   f_errorComp (a_factory s) = None \<Longrightarrow>
   sync_core k (run_sync production k cs s) =
     (case first_resolve cs of None \<Rightarrow> sync_core k s
      | Some res \<Rightarrow> sync_core k (resolve_cb k res s))"
proof (induction cs arbitrary: s)
  case Nil
  then show ?case by simp
next
  case (Cons c cs)
  show ?case
  proof (cases c)
    case (CallResolve res)
    from resolve_cb_sync_fields[OF Cons.prems(1,2), of res] Cons.prems(3)
    have "c_resolve_called (a_closures (resolve_cb k res s) k)"
      and "f_errorComp (a_factory (resolve_cb k res s)) = None" by simp_all
    from run_sync_resolved[OF this] show ?thesis by (simp add: CallResolve)
  next
    case CallReject
    have core: "sync_core k (reject_cb production k s) = sync_core k s"
      using Cons.prems(3) by (rule reject_cb_core)
    then have a: "\<not> c_resolve_called (a_closures (reject_cb production k s) k)"
      and b: "c_sync (a_closures (reject_cb production k s) k)"
      and c: "f_errorComp (a_factory (reject_cb production k s)) = None"
      using Cons.prems by (simp_all add: sync_core_def)
    have r: "\<And>res. sync_core k (resolve_cb k res (reject_cb production k s)) =
                    sync_core k (resolve_cb k res s)"
      using core by (simp add: sync_core_def resolve_cb_def forceRender_def Let_def)
    from Cons.IH[OF a b c] core r show ?thesis
      by (simp add: CallReject split: option.splits)
  qed
qed

lemma handle_res_fields:
  "a_forced (handle_res k r s) = a_forced s \<and> a_arrays (handle_res k r s) = a_arrays s \<and>
   f_resolved (a_factory (handle_res k r s)) = f_resolved (a_factory s) \<and>
   f_owners (a_factory (handle_res k r s)) = f_owners (a_factory s) \<and>
   f_loading (a_factory (handle_res k r s)) = (f_loading (a_factory s) \<or> zero_delay_loading r) \<and>
   a_calls (handle_res k r s) = a_calls s \<and>
   c_resolve_called (a_closures (handle_res k r s) k) = c_resolve_called (a_closures s k) \<and>
   c_owners (a_closures (handle_res k r s) k) = c_owners (a_closures s k)"
  by (cases r) (auto simp: handle_res_def zero_delay_loading_def Let_def split: option.splits)

lemma request_fresh:
  assumes "a_factory s = factory0"
  shows "resolveAsyncComponent production fb (Some ow) s =
    (let k = a_calls s;
         s4 = handle_res k (fb_res fb) (run_sync production k (fb_sync fb) (invoke_state ow s));
         s5 = s4\<lparr>a_closures := (a_closures s4)(k := (a_closures s4 k)\<lparr>c_sync := False\<rparr>)\<rparr>
     in (if f_loading (a_factory s5) then f_loadingComp (a_factory s5)
         else f_resolved (a_factory s5), s5))"
  using assms by (simp add: resolveAsyncComponent_def Let_def factory0_def invoke_state_def)

lemma invoke_state_core:
  assumes "a_factory s = factory0"
  shows "\<not> c_resolve_called (a_closures (invoke_state ow s) (a_calls s))"
    and "c_sync (a_closures (invoke_state ow s) (a_calls s))"
    and "f_errorComp (a_factory (invoke_state ow s)) = None"
  using assms by (simp_all add: invoke_state_def factory0_def)

lemma resolve_async_forces:
  "k < a_calls t \<Longrightarrow> \<not> c_resolve_called (a_closures t k) \<Longrightarrow> \<not> c_sync (a_closures t k) \<Longrightarrow>
   f_owners (a_factory t) = Some (c_owners (a_closures t k)) \<Longrightarrow>
   a_forced (astep production (Resolve k res) t) = a_forced t @ owners_now t"
  by (simp add: astep_def resolve_cb_def forceRender_def Let_def owners_now_def)

text \<open>
  What the call that invokes the factory does. A component instance requests a factory
  that was never requested. The call itself forces no re-render. If the factory calls
  \<open>resolve\<close> during that call, the resolved constructor is cached, the owners list is
  emptied, and the call returns the resolved constructor, unless the value the factory
  returned also set a loading component with delay 0: then the call returns the loading
  component. If the factory does not call \<open>resolve\<close> during the call, nothing is cached,
  the requester is the one owner, and a resolution that arrives afterwards calls
  \<open>$forceUpdate()\<close> on every owner.
\<close>

lemma resolve_sync_or_async:
  assumes fresh: "a_factory s = factory0"
  shows "(let r = resolveAsyncComponent production fb (Some ow) s; s' = snd r; k = a_calls s in
     a_forced s' = a_forced s \<and>
     (\<forall>res. first_resolve (fb_sync fb) = Some res \<longrightarrow>
        f_resolved (a_factory s') = Some (ensureCtor res) \<and> owners_now s' = [] \<and>
        fst r = (if zero_delay_loading (fb_res fb) then f_loadingComp (a_factory s')
                 else Some (ensureCtor res))) \<and>
     (first_resolve (fb_sync fb) = None \<longrightarrow>
        f_resolved (a_factory s') = None \<and> owners_now s' = [ow] \<and>
        (\<forall>res. a_forced (astep production (Resolve k res) s') = a_forced s' @ owners_now s')))"
proof -
  let ?k = "a_calls s"
  let ?s2 = "invoke_state ow s"
  let ?s3 = "run_sync production ?k (fb_sync fb) ?s2"
  let ?s4 = "handle_res ?k (fb_res fb) ?s3"
  let ?s5 = "?s4\<lparr>a_closures := (a_closures ?s4)(?k := (a_closures ?s4 ?k)\<lparr>c_sync := False\<rparr>)\<rparr>"
  let ?r = "if f_loading (a_factory ?s5) then f_loadingComp (a_factory ?s5) else f_resolved (a_factory ?s5)"
  have req: "resolveAsyncComponent production fb (Some ow) s = (?r, ?s5)"
    using request_fresh[OF fresh, of production fb ow] by (simp add: Let_def)
  note core = run_sync_fresh[OF invoke_state_core[OF fresh, of ow], of production "fb_sync fb"]
  note hf = handle_res_fields[of ?k "fb_res fb" ?s3]
  have l2: "\<not> f_loading (a_factory ?s2)" and f2: "a_forced ?s2 = a_forced s"
    and o2: "f_owners (a_factory ?s2) = Some ?k" and r2: "f_resolved (a_factory ?s2) = None"
    and a2: "a_arrays ?s2 ?k = [ow]" and c2: "a_calls ?s2 = Suc ?k"
    and co2: "c_owners (a_closures ?s2 ?k) = ?k"
    using fresh by (simp_all add: invoke_state_def factory0_def)
  have forced: "a_forced ?s5 = a_forced s"
  proof (cases "first_resolve (fb_sync fb)")
    case None
    with core have "sync_core ?k ?s3 = sync_core ?k ?s2" by simp
    then have "a_forced ?s3 = a_forced ?s2" by (simp add: sync_core_def)
    with hf f2 show ?thesis by simp
  next
    case (Some res)
    with core have "sync_core ?k ?s3 = sync_core ?k (resolve_cb ?k res ?s2)" by simp
    then have "a_forced ?s3 = a_forced (resolve_cb ?k res ?s2)" by (simp add: sync_core_def)
    also have "\<dots> = a_forced ?s2"
      using invoke_state_core[OF fresh, of ow] by (simp add: resolve_cb_def Let_def)
    finally show ?thesis using hf f2 by simp
  qed
  have sync: "\<forall>res. first_resolve (fb_sync fb) = Some res \<longrightarrow>
        f_resolved (a_factory ?s5) = Some (ensureCtor res) \<and> owners_now ?s5 = [] \<and>
        ?r = (if zero_delay_loading (fb_res fb) then f_loadingComp (a_factory ?s5)
                 else Some (ensureCtor res))"
  proof (intro allI impI)
    fix res assume fr: "first_resolve (fb_sync fb) = Some res"
    with core have c: "sync_core ?k ?s3 = sync_core ?k (resolve_cb ?k res ?s2)" by simp
    have rs: "a_factory (resolve_cb ?k res ?s2) = (a_factory ?s2)\<lparr>f_resolved := Some (ensureCtor res)\<rparr>"
      and ra: "a_arrays (resolve_cb ?k res ?s2) ?k = []"
      using invoke_state_core[OF fresh, of ow] co2 by (simp_all add: resolve_cb_def Let_def)
    from c rs have f3: "a_factory ?s3 = (a_factory ?s2)\<lparr>f_resolved := Some (ensureCtor res)\<rparr>"
      by (simp add: sync_core_def)
    from c ra have a3: "a_arrays ?s3 ?k = []" by (simp add: sync_core_def)
    have res5: "f_resolved (a_factory ?s5) = Some (ensureCtor res)" using hf f3 by simp
    have own5: "owners_now ?s5 = []" using hf f3 a3 o2 by (simp add: owners_now_def)
    have load5: "f_loading (a_factory ?s5) = zero_delay_loading (fb_res fb)"
      using hf f3 l2 by simp
    from res5 own5 load5
    show "f_resolved (a_factory ?s5) = Some (ensureCtor res) \<and> owners_now ?s5 = [] \<and>
        ?r = (if zero_delay_loading (fb_res fb) then f_loadingComp (a_factory ?s5)
                 else Some (ensureCtor res))" by simp
  qed
  have async: "first_resolve (fb_sync fb) = None \<longrightarrow>
        f_resolved (a_factory ?s5) = None \<and> owners_now ?s5 = [ow] \<and>
        (\<forall>res. a_forced (astep production (Resolve ?k res) ?s5) = a_forced ?s5 @ owners_now ?s5)"
  proof
    assume fr: "first_resolve (fb_sync fb) = None"
    with core have c: "sync_core ?k ?s3 = sync_core ?k ?s2" by simp
    then have f3: "a_factory ?s3 = a_factory ?s2" and a3: "a_arrays ?s3 = a_arrays ?s2"
      and rc3: "\<not> c_resolve_called (a_closures ?s3 ?k)" and co3: "c_owners (a_closures ?s3 ?k) = ?k"
      and c3: "a_calls ?s3 = Suc ?k"
      using invoke_state_core[OF fresh, of ow] co2 c2 by (simp_all add: sync_core_def)
    have res5: "f_resolved (a_factory ?s5) = None" using hf f3 r2 by simp
    have own5: "owners_now ?s5 = [ow]" using hf f3 a3 a2 o2 by (simp add: owners_now_def)
    have k5: "?k < a_calls ?s5" using hf c3 by simp
    have rc5: "\<not> c_resolve_called (a_closures ?s5 ?k)" using hf rc3 by simp
    have co5: "c_owners (a_closures ?s5 ?k) = ?k" using hf co3 by simp
    have ns5: "\<not> c_sync (a_closures ?s5 ?k)" by simp
    have o5: "f_owners (a_factory ?s5) = Some ?k" using hf f3 o2 by simp
    have o5': "f_owners (a_factory ?s5) = Some (c_owners (a_closures ?s5 ?k))"
      using o5 co5 by simp
    have "\<forall>res. a_forced (astep production (Resolve ?k res) ?s5) = a_forced ?s5 @ owners_now ?s5"
      using resolve_async_forces[OF k5 rc5 ns5 o5'] by blast
    with res5 own5 show "f_resolved (a_factory ?s5) = None \<and> owners_now ?s5 = [ow] \<and>
        (\<forall>res. a_forced (astep production (Resolve ?k res) ?s5) = a_forced ?s5 @ owners_now ?s5)"
      by blast
  qed
  show ?thesis
    unfolding Let_def req fst_conv snd_conv
    by (intro conjI forced sync async)
qed

lemma resolve_sync_or_async_example:
  "a_factory aworld0 = factory0 \<and>
   first_resolve (fb_sync \<lparr>fb_sync = [CallResolve (Ctor 1)], fb_res = NotObject\<rparr>) = Some (Ctor 1) \<and>
   fst (resolveAsyncComponent False \<lparr>fb_sync = [CallResolve (Ctor 1)], fb_res = NotObject\<rparr>
          (Some 7) aworld0) = Some (Ctor 1) \<and>
   a_forced (snd (resolveAsyncComponent False \<lparr>fb_sync = [CallResolve (Ctor 1)], fb_res = NotObject\<rparr>
          (Some 7) aworld0)) = []"
proof -
  have f: "a_factory aworld0 = factory0" by (simp add: aworld0_def)
  from resolve_sync_or_async [OF f, of False "\<lparr>fb_sync = [CallResolve (Ctor 1)], fb_res = NotObject\<rparr>" 7]
  show ?thesis
    by (simp add: Let_def f zero_delay_loading_def ensureCtor_def isObject_def aworld0_def)
qed

lemma astep_settled:
  assumes "settled s"
  shows "settled (astep production ev s) \<and> a_forced (astep production ev s) = a_forced s"
proof (cases ev)
  case (Request owner fb)
  then show ?thesis using assms
    by (simp add: astep_def settled_def resolveAsyncComponent_def Let_def)
next
  case (Resolve k res)
  then show ?thesis using assms
    by (auto simp: astep_def settled_def resolve_cb_def)
next
  case (Reject k)
  then show ?thesis using assms
    by (auto simp: astep_def settled_def reject_cb_def Let_def)
next
  case (LoadingTimer k)
  then show ?thesis using assms
    by (auto simp: astep_def settled_def timerLoading_fires_def)
next
  case (TimeoutTimer k)
  then show ?thesis using assms
    by (auto simp: astep_def settled_def timerTimeout_fires_def)
next
  case (OwnerDestroyed k)
  then show ?thesis using assms
    by (auto simp: astep_def settled_def owner_destroyed_def Let_def)
qed

lemma arun_settled:
  "settled s \<Longrightarrow> a_forced (arun production evs s) = a_forced s"
proof (induction evs arbitrary: s)
  case Nil
  then show ?case by (simp add: arun_def)
next
  case (Cons ev evs)
  from astep_settled[OF Cons.prems, of production ev]
  have a: "settled (astep production ev s)"
    and b: "a_forced (astep production ev s) = a_forced s" by simp_all
  from Cons.IH[OF a] b show ?case by (simp add: arun_def)
qed

text \<open>
  C6. A factory that calls \<open>resolve\<close> during the call that invoked it and returns an
  object with a Promise \<open>component\<close>, a \<open>loading\<close> component and \<open>delay: 0\<close>. The resolved
  constructor (1) is cached and the owners list is emptied without a forced re-render,
  but the initiating call returns the loading component (2), not the resolved
  constructor: the \<open>delay === 0\<close> branch sets \<open>factory.loading\<close> without the test of
  \<open>factory.resolved\<close> that the timer's callback has. Whatever happens to the factory
  afterwards, \<open>$forceUpdate()\<close> is never called: the owner is left with the loading
  component.
\<close>

theorem resolve_sync_returns_loadingComp:
  "fst (resolveAsyncComponent production fb_sync_loading (Some 7) aworld0) = Some (Ctor 2) \<and>
   f_resolved (a_factory (snd (resolveAsyncComponent production fb_sync_loading (Some 7) aworld0))) =
     Some (Ctor 1) \<and>
   owners_now (snd (resolveAsyncComponent production fb_sync_loading (Some 7) aworld0)) = [] \<and>
   a_forced (arun production evs
     (snd (resolveAsyncComponent production fb_sync_loading (Some 7) aworld0))) = []"
proof -
  let ?r = "resolveAsyncComponent production fb_sync_loading (Some 7) aworld0"
  have a: "fst ?r = Some (Ctor 2)"
    and b: "f_resolved (a_factory (snd ?r)) = Some (Ctor 1)"
    and c: "owners_now (snd ?r) = []"
    and d: "a_forced (snd ?r) = []"
    and e: "settled (snd ?r)"
    by (simp_all add: resolveAsyncComponent_def Let_def aworld0_def factory0_def
        fb_sync_loading_def handle_res_def resolve_cb_def ensureCtor_def isObject_def
        owners_now_def settled_def)
  from arun_settled[OF e, of production evs] d
  have "a_forced (arun production evs (snd ?r)) = []" by simp
  with a b c show ?thesis by simp
qed

section \<open>Properties of enter and leave\<close>

lemma tinv_emit [simp]: "tinv (emit es s) = tinv s"
  by (simp add: tinv_def enter_ok_def leave_ok_def one_pending_def emit_def)

lemma emit_fields [simp]:
  "t_els (emit es s) = t_els s" "t_cbs (emit es s) = t_cbs s" "t_next (emit es s) = t_next s"
  "t_pending (emit es s) = t_pending s" "t_effects (emit es s) = t_effects s @ es"
  by (simp_all add: emit_def)

lemma clear_pending_fields [simp]:
  "t_els (clear_pending el k s) = t_els s" "t_cbs (clear_pending el k s) = t_cbs s"
  "t_next (clear_pending el k s) = t_next s" "t_effects (clear_pending el k s) = t_effects s"
  by (simp_all add: clear_pending_def split: option.splits)

lemma ok_cancelled_flag:
  "enter_ok (s\<lparr>t_cbs := (t_cbs s)(r := (t_cbs s r)\<lparr>cb_cancelled := True\<rparr>)\<rparr>) el = enter_ok s el"
  "leave_ok (s\<lparr>t_cbs := (t_cbs s)(r := (t_cbs s r)\<lparr>cb_cancelled := True\<rparr>)\<rparr>) el = leave_ok s el"
  "one_pending (s\<lparr>t_cbs := (t_cbs s)(r := (t_cbs s r)\<lparr>cb_cancelled := True\<rparr>)\<rparr>) el = one_pending s el"
  by (auto simp: enter_ok_def leave_ok_def one_pending_def)

lemma tinv_cancelled_flag:
  "tinv (s\<lparr>t_cbs := (t_cbs s)(r := (t_cbs s r)\<lparr>cb_cancelled := True\<rparr>)\<rparr>) = tinv s"
  unfolding tinv_def ok_cancelled_flag by (rule refl)

lemma invoke_cb_tinv:
  assumes "tinv s"
  shows "tinv (invoke_cb r s)"
proof (cases "cb_called (t_cbs s r)")
  case True
  then show ?thesis using assms by (simp add: invoke_cb_def)
next
  case False
  show ?thesis
  proof (cases "cb_body (t_cbs s r)")
    case (EnterBody env)
    have "\<And>el. enter_ok (invoke_cb r s) el \<and> leave_ok (invoke_cb r s) el \<and> one_pending (invoke_cb r s) el"
    proof -
      fix el
      from assms have e: "enter_ok s el" and l: "leave_ok s el" and o: "one_pending s el"
        by (simp_all add: tinv_def)
      show "enter_ok (invoke_cb r s) el \<and> leave_ok (invoke_cb r s) el \<and> one_pending (invoke_cb r s) el"
        using e l o False EnterBody
        by (auto simp: invoke_cb_def run_cb_body_def Let_def enter_ok_def leave_ok_def one_pending_def
            split: option.splits)
    qed
    then show ?thesis by (simp add: tinv_def)
  next
    case (LeaveBody env)
    have "\<And>el. enter_ok (invoke_cb r s) el \<and> leave_ok (invoke_cb r s) el \<and> one_pending (invoke_cb r s) el"
    proof -
      fix el
      from assms have e: "enter_ok s el" and l: "leave_ok s el" and o: "one_pending s el"
        by (simp_all add: tinv_def)
      show "enter_ok (invoke_cb r s) el \<and> leave_ok (invoke_cb r s) el \<and> one_pending (invoke_cb r s) el"
        using e l o False LeaveBody
        by (auto simp: invoke_cb_def run_cb_body_def Let_def enter_ok_def leave_ok_def one_pending_def
            split: option.splits)
    qed
    then show ?thesis by (simp add: tinv_def)
  qed
qed

lemma cancel_cb_tinv: "tinv s \<Longrightarrow> tinv (cancel_cb r s)"
  unfolding cancel_cb_def by (rule invoke_cb_tinv) (simp add: tinv_cancelled_flag)

lemma cancel_cb_clears_leave:
  assumes "tinv s" and "e_leaveCb (t_els s el) = Some r"
  shows "e_leaveCb (t_els (cancel_cb r s) el) = None \<and>
         e_enterCb (t_els (cancel_cb r s) el) = e_enterCb (t_els s el) \<and>
         e_nodeType (t_els (cancel_cb r s) el) = e_nodeType (t_els s el)"
proof -
  from assms have "leave_ok s el" by (simp add: tinv_def)
  with assms(2) obtain env where "\<not> cb_called (t_cbs s r)" "cb_body (t_cbs s r) = LeaveBody env"
    "le_el env = el" by (auto simp: leave_ok_def)
  then show ?thesis
    by (simp add: cancel_cb_def invoke_cb_def run_cb_body_def Let_def)
qed

lemma cancel_cb_clears_enter:
  assumes "tinv s" and "e_enterCb (t_els s el) = Some r"
  shows "e_enterCb (t_els (cancel_cb r s) el) = None \<and>
         e_leaveCb (t_els (cancel_cb r s) el) = e_leaveCb (t_els s el) \<and>
         e_nodeType (t_els (cancel_cb r s) el) = e_nodeType (t_els s el)"
proof -
  from assms have "enter_ok s el" by (simp add: tinv_def)
  with assms(2) obtain env where "\<not> cb_called (t_cbs s r)" "cb_body (t_cbs s r) = EnterBody env"
    "ee_el env = el" by (auto simp: enter_ok_def)
  then show ?thesis
    by (simp add: cancel_cb_def invoke_cb_def run_cb_body_def Let_def)
qed

lemma alloc_enter_tinv:
  assumes "tinv s" and "e_leaveCb (t_els s (ee_el env)) = None"
  shows "tinv (alloc_enter_cb env s)"
  unfolding tinv_def
proof (intro allI)
  fix x
  from assms(1) have "enter_ok s x" "leave_ok s x" "one_pending s x" by (simp_all add: tinv_def)
  then show "enter_ok (alloc_enter_cb env s) x \<and> leave_ok (alloc_enter_cb env s) x \<and>
     one_pending (alloc_enter_cb env s) x"
    using assms(2) by (auto simp: alloc_enter_cb_def enter_ok_def leave_ok_def one_pending_def)
qed

lemma alloc_leave_tinv:
  assumes "tinv s" and "e_enterCb (t_els s (le_el env)) = None"
  shows "tinv (alloc_leave_cb env s)"
  unfolding tinv_def
proof (intro allI)
  fix x
  from assms(1) have "enter_ok s x" "leave_ok s x" "one_pending s x" by (simp_all add: tinv_def)
  then show "enter_ok (alloc_leave_cb env s) x \<and> leave_ok (alloc_leave_cb env s) x \<and>
     one_pending (alloc_leave_cb env s) x"
    using assms(2) by (auto simp: alloc_leave_cb_def enter_ok_def leave_ok_def one_pending_def)
qed

lemma enter_main_tinv:
  assumes "tinv s" and "e_leaveCb (t_els s (tv_elm vnode)) = None"
  shows "tinv (enter_main isIE9 production context_isMounted vnode toggleDisplay d s)"
  using assms
  by (simp add: enter_main_def Let_def invoke_cb_tinv alloc_enter_tinv)

lemma cancel_pending_leave_tinv:
  assumes "tinv s"
  shows "tinv (cancel_pending_leave el s) \<and> e_leaveCb (t_els (cancel_pending_leave el s) el) = None"
proof (cases "e_leaveCb (t_els s el)")
  case None
  then show ?thesis using assms by (simp add: cancel_pending_leave_def)
next
  case (Some r)
  then show ?thesis
    using cancel_cb_tinv[OF assms, of r] cancel_cb_clears_leave[OF assms Some]
    by (simp add: cancel_pending_leave_def)
qed

lemma cancel_pending_enter_tinv:
  assumes "tinv s"
  shows "tinv (cancel_pending_enter el s) \<and> e_enterCb (t_els (cancel_pending_enter el s) el) = None"
proof (cases "e_enterCb (t_els s el)")
  case None
  then show ?thesis using assms by (simp add: cancel_pending_enter_def)
next
  case (Some r)
  then show ?thesis
    using cancel_cb_tinv[OF assms, of r] cancel_cb_clears_enter[OF assms Some]
    by (simp add: cancel_pending_enter_def)
qed

lemma enter_tinv:
  assumes "tinv s"
  shows "tinv (enter isIE9 production context_isMounted vnode toggleDisplay s)"
  using cancel_pending_leave_tinv[OF assms, of "tv_elm vnode"]
  by (simp add: enter_def enter_rest_def Let_def enter_main_tinv split: option.splits)

lemma tinv_pending [simp]: "tinv (s\<lparr>t_pending := p\<rparr>) = tinv s"
  by (simp add: tinv_def enter_ok_def leave_ok_def one_pending_def)

lemma performLeave_tinv: "tinv s \<Longrightarrow> tinv (performLeave c s)"
  by (simp add: performLeave_def Let_def invoke_cb_tinv split: option.splits)

lemma leave_main_tinv:
  assumes "tinv s" and "e_enterCb (t_els s (tv_elm vnode)) = None"
  shows "tinv (leave_main isIE9 production vnode d s)"
  using assms
  by (simp add: leave_main_def Let_def performLeave_tinv alloc_leave_tinv)

lemma leave_tinv:
  assumes "tinv s"
  shows "tinv (leave isIE9 production vnode s)"
  using cancel_pending_enter_tinv[OF assms, of "tv_elm vnode"]
  by (simp add: leave_def leave_rest_def Let_def leave_main_tinv split: option.splits)

lemma tstep_tinv: "tinv s \<Longrightarrow> tinv (tstep isIE9 production ev s)"
  by (cases ev)
     (simp_all add: tstep_def enter_tinv leave_tinv invoke_cb_tinv performLeave_tinv
        enter_next_frame_def leave_next_frame_def enter_insert_hook_def Let_def
        split: option.splits)

lemma trun_tinv: "tinv s \<Longrightarrow> tinv (trun isIE9 production evs s)"
  unfolding trun_def by (induction evs arbitrary: s) (simp_all add: tstep_tinv)

lemma ext_refl: "ext P s s"
  by (simp add: ext_def)

lemma ext_same: "t_effects s' = t_effects s \<Longrightarrow> ext P s s'"
  by (simp add: ext_def)

lemma ext_trans: "ext P s s1 \<Longrightarrow> ext P s1 s2 \<Longrightarrow> ext P s s2"
  by (auto simp: ext_def)

lemma ext_emit: "list_all P es \<Longrightarrow> ext P s (emit es s)"
  by (simp add: ext_def)

lemma hook_call_leave_roles [simp]:
  "list_all no_enter_hook (hook_call BeforeLeaveHook h el)"
  "list_all no_enter_hook (hook_call LeaveHook h el)"
  "list_all no_enter_hook (hook_call AfterLeaveHook h el)"
  "list_all no_enter_hook (hook_call LeaveCancelledHook h el)"
  by (simp_all add: hook_call_def no_enter_hook_def enter_role_def split: option.splits)

lemma hook_call_enter_roles [simp]:
  "list_all no_leave_hook (hook_call BeforeEnterHook h el)"
  "list_all no_leave_hook (hook_call EnterHook h el)"
  "list_all no_leave_hook (hook_call AfterEnterHook h el)"
  "list_all no_leave_hook (hook_call EnterCancelledHook h el)"
  by (simp_all add: hook_call_def no_leave_hook_def enter_role_def split: option.splits)

lemma leave_cb_effects_no_enter: "list_all no_enter_hook (leave_cb_effects env c)"
  by (simp add: leave_cb_effects_def no_enter_hook_def)

lemma enter_cb_effects_no_leave: "list_all no_leave_hook (enter_cb_effects env c)"
  by (simp add: enter_cb_effects_def no_leave_hook_def)

lemma checkDuration_plain [simp]:
  "list_all no_enter_hook (checkDuration v n)" "list_all no_leave_hook (checkDuration v n)"
  by (simp_all add: checkDuration_def no_enter_hook_def no_leave_hook_def split: jsdur.splits)

lemma invoke_leave_cb_ext:
  "cb_body (t_cbs s r) = LeaveBody env \<Longrightarrow> ext no_enter_hook s (invoke_cb r s)"
  by (simp add: invoke_cb_def run_cb_body_def Let_def ext_def leave_cb_effects_no_enter)

lemma invoke_enter_cb_ext:
  "cb_body (t_cbs s r) = EnterBody env \<Longrightarrow> ext no_leave_hook s (invoke_cb r s)"
  by (simp add: invoke_cb_def run_cb_body_def Let_def ext_def enter_cb_effects_no_leave)

lemma performLeave_ext:
  assumes "cb_body (t_cbs s (lc_cb c)) = LeaveBody env"
  shows "ext no_enter_hook s (performLeave c s)"
proof (cases "cb_cancelled (t_cbs s (lc_cb c))")
  case True
  then show ?thesis by (simp add: performLeave_def Let_def ext_refl)
next
  case False
  define s1 where "s1 = (case e_parentNode (t_els s (tv_elm (lc_vnode c))) of
                       Some p \<Rightarrow>
                         if \<not> tv_show (lc_vnode c)
                         then s\<lparr>t_pending := (t_pending s)
                                 (p := Some ((case t_pending s p of Some tbl \<Rightarrow> tbl
                                              | None \<Rightarrow> (\<lambda>_. None))(tv_key (lc_vnode c) := Some (lc_vnode c))))\<rparr>
                         else s
                     | None \<Rightarrow> s)"
  define es where "es = hook_call BeforeLeaveHook (lc_beforeLeave c) (tv_elm (lc_vnode c)) @
                      (if lc_expectsCSS c
                       then [AddTransitionClass (tv_elm (lc_vnode c)) (lc_leaveClass c),
                             AddTransitionClass (tv_elm (lc_vnode c)) (lc_leaveActiveClass c),
                             NextFrameLeave \<lparr>lf_el = tv_elm (lc_vnode c), lf_cb = lc_cb c, lf_leaveClass = lc_leaveClass c,
                                lf_leaveToClass = lc_leaveToClass c,
                                lf_userWantsControl = lc_userWantsControl c,
                                lf_duration = lc_duration c\<rparr>]
                       else []) @
                      hook_call LeaveHook (lc_leave c) (tv_elm (lc_vnode c))"
  have pl: "performLeave c s =
     (if \<not> lc_expectsCSS c \<and> \<not> lc_userWantsControl c then invoke_cb (lc_cb c) (emit es s1) else emit es s1)"
    using False by (simp add: performLeave_def Let_def s1_def es_def)
  have e1: "t_effects s1 = t_effects s" and c1: "t_cbs s1 = t_cbs s"
    by (simp_all add: s1_def split: option.splits)
  have les: "list_all no_enter_hook es"
    by (simp add: es_def no_enter_hook_def)
  have a: "ext no_enter_hook s s1" using e1 by (rule ext_same)
  have b: "ext no_enter_hook s1 (emit es s1)" using les by (rule ext_emit)
  have "cb_body (t_cbs (emit es s1) (lc_cb c)) = LeaveBody env" using assms c1 by simp
  then have d: "ext no_enter_hook (emit es s1) (invoke_cb (lc_cb c) (emit es s1))"
    by (rule invoke_leave_cb_ext)
  show ?thesis unfolding pl using ext_trans[OF a b] ext_trans[OF ext_trans[OF a b] d] by simp
qed

lemma leave_main_ext: "ext no_enter_hook s (leave_main isIE9 production vnode d s)"
proof -
  define s1 where "s1 = (if \<not> production \<and> (case t_duration d of DurObject e l \<Rightarrow> l | DurPlain v \<Rightarrow> v) \<noteq> DUndefined
                then emit (checkDuration (case t_duration d of DurObject e l \<Rightarrow> l | DurPlain v \<Rightarrow> v) ''leave'') s else s)"
  define env where "env = \<lparr>le_el = tv_elm vnode, le_key = tv_key vnode,
                  le_expectsCSS = (t_css d \<noteq> Some False \<and> \<not> isIE9), le_leaveClass = t_leaveClass d,
                  le_leaveToClass = t_leaveToClass d,
                  le_leaveActiveClass = t_leaveActiveClass d,
                  le_leaveCancelled = named H_leaveCancelled (t_leaveCancelled d),
                  le_afterLeave = named H_afterLeave (t_afterLeave d)\<rparr>"
  define c where "c = \<lparr>lc_vnode = vnode, lc_cb = t_next s1, lc_expectsCSS = (t_css d \<noteq> Some False \<and> \<not> isIE9),
               lc_userWantsControl = getHookArgumentsLength (t_leave d), lc_leaveClass = t_leaveClass d,
               lc_leaveToClass = t_leaveToClass d, lc_leaveActiveClass = t_leaveActiveClass d,
               lc_beforeLeave = named H_beforeLeave (t_beforeLeave d),
               lc_leave = named H_leave (t_leave d),
               lc_duration = (case t_duration d of DurObject e l \<Rightarrow> l | DurPlain v \<Rightarrow> v)\<rparr>"
  have lm: "leave_main isIE9 production vnode d s =
     (if t_delayLeave d \<noteq> None then emit [DelayLeaveCall c] (alloc_leave_cb env s1)
      else performLeave c (alloc_leave_cb env s1))"
    by (simp add: leave_main_def Let_def s1_def env_def c_def)
  have a: "ext no_enter_hook s s1"
    by (simp add: s1_def ext_refl ext_emit)
  have b: "ext no_enter_hook s1 (alloc_leave_cb env s1)"
    by (rule ext_same) (simp add: alloc_leave_cb_def)
  have "cb_body (t_cbs (alloc_leave_cb env s1) (lc_cb c)) = LeaveBody env"
    by (simp add: alloc_leave_cb_def c_def)
  then have p: "ext no_enter_hook (alloc_leave_cb env s1) (performLeave c (alloc_leave_cb env s1))"
    by (rule performLeave_ext)
  have e: "ext no_enter_hook (alloc_leave_cb env s1) (emit [DelayLeaveCall c] (alloc_leave_cb env s1))"
    by (rule ext_emit) (simp add: no_enter_hook_def)
  show ?thesis unfolding lm
    using ext_trans[OF ext_trans[OF a b] p] ext_trans[OF ext_trans[OF a b] e] by simp
qed

lemma leave_rest_ext: "ext no_enter_hook s (leave_rest isIE9 production vnode s)"
  by (simp add: leave_rest_def Let_def leave_main_ext ext_refl ext_emit no_enter_hook_def
      split: option.splits)

lemma enter_main_ext:
  "ext no_leave_hook s (enter_main isIE9 production context_isMounted vnode toggleDisplay d s)"
proof -
  define isAppear where "isAppear = (\<not> context_isMounted \<or> \<not> tv_isRootInsert vnode)"
  define dur where "dur = (case t_duration d of DurObject e l \<Rightarrow> e | DurPlain v \<Rightarrow> v)"
  define s1 where "s1 = (if \<not> production \<and> dur \<noteq> DUndefined
                     then emit (checkDuration dur ''enter'') s else s)"
  define enterFn where "enterFn = (if isAppear
                  then (case t_appear d of AppearFunction f \<Rightarrow> Some f | _ \<Rightarrow> t_enter d)
                  else t_enter d)"
  define enterHook where "enterHook = (if isAppear
                  then (case t_appear d of AppearFunction f \<Rightarrow> Some H_appear
                        | _ \<Rightarrow> named H_enter (t_enter d))
                  else named H_enter (t_enter d))"
  define beforeEnterHook where "beforeEnterHook = (if isAppear
                  then or_hook (named H_beforeAppear (t_beforeAppear d)) (named H_beforeEnter (t_beforeEnter d))
                  else named H_beforeEnter (t_beforeEnter d))"
  define expectsCSS where "expectsCSS = (t_css d \<noteq> Some False \<and> \<not> isIE9)"
  define env where "env = \<lparr>ee_el = tv_elm vnode, ee_expectsCSS = expectsCSS,
                       ee_startClass = pick_class isAppear (t_appearClass d) (t_enterClass d),
                       ee_activeClass = pick_class isAppear (t_appearActiveClass d) (t_enterActiveClass d),
                       ee_toClass = pick_class isAppear (t_appearToClass d) (t_enterToClass d),
                       ee_enterCancelledHook = (if isAppear
                  then or_hook (named H_appearCancelled (t_appearCancelled d))
                               (named H_enterCancelled (t_enterCancelled d))
                  else named H_enterCancelled (t_enterCancelled d)),
                       ee_afterEnterHook = (if isAppear
                  then or_hook (named H_afterAppear (t_afterAppear d)) (named H_afterEnter (t_afterEnter d))
                  else named H_afterEnter (t_afterEnter d))\<rparr>"
  define es where "es = (if \<not> tv_show vnode
                       then [MergeInsertHook \<lparr>ic_el = tv_elm vnode, ic_key = tv_key vnode, ic_tag = tv_tag vnode,
                                               ic_enterHook = enterHook, ic_cb = t_next s1\<rparr>]
                       else []) @
                      hook_call BeforeEnterHook beforeEnterHook (tv_elm vnode) @
                      (if expectsCSS
                       then [AddTransitionClass (tv_elm vnode) (pick_class isAppear (t_appearClass d) (t_enterClass d)),
                             AddTransitionClass (tv_elm vnode) (pick_class isAppear (t_appearActiveClass d) (t_enterActiveClass d)),
                             NextFrameEnter \<lparr>ef_el = tv_elm vnode, ef_cb = t_next s1,
                                ef_startClass = pick_class isAppear (t_appearClass d) (t_enterClass d),
                                ef_toClass = pick_class isAppear (t_appearToClass d) (t_enterToClass d),
                                ef_userWantsControl = getHookArgumentsLength enterFn,
                                ef_duration = dur\<rparr>]
                       else []) @
                      (if tv_show vnode
                       then (if toggleDisplay then [ToggleDisplay] else []) @
                            hook_call EnterHook enterHook (tv_elm vnode)
                       else [])"
  have em: "enter_main isIE9 production context_isMounted vnode toggleDisplay d s =
     (if isAppear \<and> t_appear d = AppearFalsy then s
      else if \<not> expectsCSS \<and> \<not> getHookArgumentsLength enterFn
           then invoke_cb (t_next s1) (emit es (alloc_enter_cb env s1))
           else emit es (alloc_enter_cb env s1))"
    by (simp add: enter_main_def Let_def isAppear_def dur_def s1_def enterFn_def enterHook_def
        beforeEnterHook_def expectsCSS_def env_def es_def)
  have a: "ext no_leave_hook s s1"
    by (simp add: s1_def ext_refl ext_emit)
  have b: "ext no_leave_hook s1 (alloc_enter_cb env s1)"
    by (rule ext_same) (simp add: alloc_enter_cb_def)
  have les: "list_all no_leave_hook es"
    by (simp add: es_def no_leave_hook_def)
  have c: "ext no_leave_hook (alloc_enter_cb env s1) (emit es (alloc_enter_cb env s1))"
    using les by (rule ext_emit)
  have "cb_body (t_cbs (emit es (alloc_enter_cb env s1)) (t_next s1)) = EnterBody env"
    by (simp add: alloc_enter_cb_def)
  then have i: "ext no_leave_hook (emit es (alloc_enter_cb env s1))
                  (invoke_cb (t_next s1) (emit es (alloc_enter_cb env s1)))"
    by (rule invoke_enter_cb_ext)
  note abc = ext_trans[OF ext_trans[OF a b] c]
  show ?thesis unfolding em using abc ext_trans[OF abc i] by (simp add: ext_refl)
qed

lemma enter_rest_ext:
  "ext no_leave_hook s (enter_rest isIE9 production context_isMounted vnode toggleDisplay s)"
  by (simp add: enter_rest_def Let_def enter_main_ext ext_refl split: option.splits)

lemma cancel_enter_cb_effects:
  assumes "\<not> cb_called (t_cbs s r)" and "cb_body (t_cbs s r) = EnterBody env"
  shows "t_effects (cancel_cb r s) = t_effects s @ enter_cb_effects env True \<and>
         cb_called (t_cbs (cancel_cb r s) r) \<and> cb_cancelled (t_cbs (cancel_cb r s) r) \<and>
         e_enterCb (t_els (cancel_cb r s) (ee_el env)) = None"
  using assms by (simp add: cancel_cb_def invoke_cb_def run_cb_body_def Let_def)

lemma cancel_leave_cb_effects:
  assumes "\<not> cb_called (t_cbs s r)" and "cb_body (t_cbs s r) = LeaveBody env"
  shows "t_effects (cancel_cb r s) = t_effects s @ leave_cb_effects env True \<and>
         cb_called (t_cbs (cancel_cb r s) r) \<and> cb_cancelled (t_cbs (cancel_cb r s) r) \<and>
         e_leaveCb (t_els (cancel_cb r s) (le_el env)) = None"
  using assms by (simp add: cancel_cb_def invoke_cb_def run_cb_body_def Let_def)

lemma enter_cancelled_effects:
  "enter_cb_effects env True =
     (if ee_expectsCSS env
      then [RemoveTransitionClass (ee_el env) (ee_toClass env),
            RemoveTransitionClass (ee_el env) (ee_activeClass env),
            RemoveTransitionClass (ee_el env) (ee_startClass env)]
      else []) @ hook_call EnterCancelledHook (ee_enterCancelledHook env) (ee_el env)"
  by (simp add: enter_cb_effects_def)

lemma leave_cancelled_effects:
  "leave_cb_effects env True =
     (if le_expectsCSS env
      then [RemoveTransitionClass (le_el env) (le_leaveToClass env),
            RemoveTransitionClass (le_el env) (le_leaveActiveClass env),
            RemoveTransitionClass (le_el env) (le_leaveClass env)]
      else []) @ hook_call LeaveCancelledHook (le_leaveCancelled env) (le_el env)"
  by (simp add: leave_cb_effects_def)

text \<open>
  C5. From a well-formed state, whatever happens afterwards, no element has both an
  enter callback and a leave callback pending. \<open>leave\<close> on an element with a pending enter
  callback is the rest of \<open>leave\<close> run after that callback was marked cancelled and
  invoked: the slot \<open>_enterCb\<close> is empty, the transition classes are removed and the
  enter-cancelled hook (if there is one) was called, and what \<open>leave\<close> does after that
  calls no enter hook, so the after-enter hook does not run. Symmetrically, \<open>enter\<close> on an
  element with a pending leave callback cancels and invokes that callback first, and
  then calls no leave hook and not \<open>rm\<close>.
\<close>

theorem cross_cancellation:
  assumes inv: "tinv s"
  shows "(\<forall>el. e_enterCb (t_els (trun isIE9 production evs s) el) = None \<or>
              e_leaveCb (t_els (trun isIE9 production evs s) el) = None) \<and>
    (pending_enter s (tv_elm vnode) r env \<longrightarrow>
       leave isIE9 production vnode s = leave_rest isIE9 production vnode (cancel_cb r s) \<and>
       cb_cancelled (t_cbs (cancel_cb r s) r) \<and>
       e_enterCb (t_els (cancel_cb r s) (tv_elm vnode)) = None \<and>
       t_effects (cancel_cb r s) = t_effects s @
         (if ee_expectsCSS env
          then [RemoveTransitionClass (ee_el env) (ee_toClass env),
                RemoveTransitionClass (ee_el env) (ee_activeClass env),
                RemoveTransitionClass (ee_el env) (ee_startClass env)]
          else []) @ hook_call EnterCancelledHook (ee_enterCancelledHook env) (tv_elm vnode) \<and>
       (\<exists>rest. t_effects (leave isIE9 production vnode s) = t_effects (cancel_cb r s) @ rest \<and>
               list_all no_enter_hook rest)) \<and>
    (pending_leave s (tv_elm vnode) r' env' \<longrightarrow>
       enter isIE9 production context_isMounted vnode toggleDisplay s =
         enter_rest isIE9 production context_isMounted vnode toggleDisplay (cancel_cb r' s) \<and>
       cb_cancelled (t_cbs (cancel_cb r' s) r') \<and>
       e_leaveCb (t_els (cancel_cb r' s) (tv_elm vnode)) = None \<and>
       t_effects (cancel_cb r' s) = t_effects s @
         (if le_expectsCSS env'
          then [RemoveTransitionClass (le_el env') (le_leaveToClass env'),
                RemoveTransitionClass (le_el env') (le_leaveActiveClass env'),
                RemoveTransitionClass (le_el env') (le_leaveClass env')]
          else []) @ hook_call LeaveCancelledHook (le_leaveCancelled env') (tv_elm vnode) \<and>
       (\<exists>rest. t_effects (enter isIE9 production context_isMounted vnode toggleDisplay s) =
                 t_effects (cancel_cb r' s) @ rest \<and> list_all no_leave_hook rest))"
proof (intro conjI impI)
  have "tinv (trun isIE9 production evs s)" using inv by (rule trun_tinv)
  then show "\<forall>el. e_enterCb (t_els (trun isIE9 production evs s) el) = None \<or>
              e_leaveCb (t_els (trun isIE9 production evs s) el) = None"
    by (simp add: tinv_def one_pending_def)
next
  assume p: "pending_enter s (tv_elm vnode) r env"
  then have st: "e_enterCb (t_els s (tv_elm vnode)) = Some r" and bd: "cb_body (t_cbs s r) = EnterBody env"
    by (simp_all add: pending_enter_def)
  from inv have "enter_ok s (tv_elm vnode)" by (simp add: tinv_def)
  with st bd have nc: "\<not> cb_called (t_cbs s r)" and el: "ee_el env = tv_elm vnode"
    by (auto simp: enter_ok_def)
  note ce = cancel_enter_cb_effects[OF nc bd]
  show l: "leave isIE9 production vnode s = leave_rest isIE9 production vnode (cancel_cb r s)"
    using st by (simp add: leave_def cancel_pending_enter_def)
  show "cb_cancelled (t_cbs (cancel_cb r s) r)" using ce by simp
  show "e_enterCb (t_els (cancel_cb r s) (tv_elm vnode)) = None" using ce el by simp
  show "t_effects (cancel_cb r s) = t_effects s @
         (if ee_expectsCSS env
          then [RemoveTransitionClass (ee_el env) (ee_toClass env),
                RemoveTransitionClass (ee_el env) (ee_activeClass env),
                RemoveTransitionClass (ee_el env) (ee_startClass env)]
          else []) @ hook_call EnterCancelledHook (ee_enterCancelledHook env) (tv_elm vnode)"
    using ce el by (simp add: enter_cancelled_effects)
  show "\<exists>rest. t_effects (leave isIE9 production vnode s) = t_effects (cancel_cb r s) @ rest \<and>
               list_all no_enter_hook rest"
    unfolding l using leave_rest_ext[of "cancel_cb r s" isIE9 production vnode]
    by (simp add: ext_def)
next
  assume p: "pending_leave s (tv_elm vnode) r' env'"
  then have st: "e_leaveCb (t_els s (tv_elm vnode)) = Some r'" and bd: "cb_body (t_cbs s r') = LeaveBody env'"
    by (simp_all add: pending_leave_def)
  from inv have "leave_ok s (tv_elm vnode)" by (simp add: tinv_def)
  with st bd have nc: "\<not> cb_called (t_cbs s r')" and el: "le_el env' = tv_elm vnode"
    by (auto simp: leave_ok_def)
  note ce = cancel_leave_cb_effects[OF nc bd]
  show l: "enter isIE9 production context_isMounted vnode toggleDisplay s =
         enter_rest isIE9 production context_isMounted vnode toggleDisplay (cancel_cb r' s)"
    using st by (simp add: enter_def cancel_pending_leave_def)
  show "cb_cancelled (t_cbs (cancel_cb r' s) r')" using ce by simp
  show "e_leaveCb (t_els (cancel_cb r' s) (tv_elm vnode)) = None" using ce el by simp
  show "t_effects (cancel_cb r' s) = t_effects s @
         (if le_expectsCSS env'
          then [RemoveTransitionClass (le_el env') (le_leaveToClass env'),
                RemoveTransitionClass (le_el env') (le_leaveActiveClass env'),
                RemoveTransitionClass (le_el env') (le_leaveClass env')]
          else []) @ hook_call LeaveCancelledHook (le_leaveCancelled env') (tv_elm vnode)"
    using ce el by (simp add: leave_cancelled_effects)
  show "\<exists>rest. t_effects (enter isIE9 production context_isMounted vnode toggleDisplay s) =
                 t_effects (cancel_cb r' s) @ rest \<and> list_all no_leave_hook rest"
    unfolding l
    using enter_rest_ext[of "cancel_cb r' s" isIE9 production context_isMounted vnode toggleDisplay]
    by (simp add: ext_def)
qed

lemmas transition_defs = enter_def enter_rest_def enter_main_def cancel_pending_leave_def
  leave_def leave_rest_def leave_main_def cancel_pending_enter_def performLeave_def
  cancel_cb_def invoke_cb_def run_cb_body_def alloc_enter_cb_def alloc_leave_cb_def
  enter_cb_effects_def leave_cb_effects_def hook_call_def named_def or_hook_def pick_class_def
  getHookArgumentsLength_def emit_def clear_pending_def truthy_str_def
  tdata0_def tvnode1_def tworld0_def enter_env1_def Let_def

lemma tinv_tworld0: "tinv tworld0"
  by (simp add: tinv_def enter_ok_def leave_ok_def one_pending_def tworld0_def)

lemma tworld1_pending: "pending_enter tworld1 1 0 enter_env1 \<and> e_leaveCb (t_els tworld1 1) = None"
  by (simp add: tworld1_def pending_enter_def transition_defs)

theorem cross_cancellation_witness:
  "tinv tworld1 \<and> pending_enter tworld1 (tv_elm tvnode1) 0 enter_env1 \<and>
   t_effects (cancel_cb 0 tworld1) = t_effects tworld1 @
     [RemoveTransitionClass 1 (Some ''v-enter-to''), RemoveTransitionClass 1 (Some ''v-enter-active''),
      RemoveTransitionClass 1 (Some ''v-enter''), HookCall EnterCancelledHook H_enterCancelled 1] \<and>
   e_enterCb (t_els (leave False False tvnode1 tworld1) 1) = None \<and>
   e_leaveCb (t_els (leave False False tvnode1 tworld1) 1) = Some 1"
proof -
  have inv: "tinv tworld1" unfolding tworld1_def using tinv_tworld0 by (rule enter_tinv)
  have p: "pending_enter tworld1 (tv_elm tvnode1) 0 enter_env1"
    using tworld1_pending by (simp add: tvnode1_def)
  from cross_cancellation[OF inv, of False False "[]" tvnode1 0 enter_env1] p
  have a: "leave False False tvnode1 tworld1 = leave_rest False False tvnode1 (cancel_cb 0 tworld1)"
    and b: "e_enterCb (t_els (cancel_cb 0 tworld1) (tv_elm tvnode1)) = None"
    and c: "t_effects (cancel_cb 0 tworld1) = t_effects tworld1 @
         (if ee_expectsCSS enter_env1
          then [RemoveTransitionClass (ee_el enter_env1) (ee_toClass enter_env1),
                RemoveTransitionClass (ee_el enter_env1) (ee_activeClass enter_env1),
                RemoveTransitionClass (ee_el enter_env1) (ee_startClass enter_env1)]
          else []) @ hook_call EnterCancelledHook (ee_enterCancelledHook enter_env1) (tv_elm tvnode1)"
    by blast+
  have c': "t_effects (cancel_cb 0 tworld1) = t_effects tworld1 @
     [RemoveTransitionClass 1 (Some ''v-enter-to''), RemoveTransitionClass 1 (Some ''v-enter-active''),
      RemoveTransitionClass 1 (Some ''v-enter''), HookCall EnterCancelledHook H_enterCancelled 1]"
    using c by (simp add: enter_env1_def hook_call_def tvnode1_def)
  have d: "e_enterCb (t_els (leave False False tvnode1 tworld1) 1) = None \<and>
   e_leaveCb (t_els (leave False False tvnode1 tworld1) 1) = Some 1"
    by (simp add: tworld1_def transition_defs)
  from inv p c' d show ?thesis by blast
qed

end
